theory Spec2Isabelle
  imports Complex_Main
begin

section \<open>The dead-leaves chart generator\<close>

text \<open>
  A shallow embedding of \<^verbatim>\<open>dead_leaves_chart\<close>
  (\<^verbatim>\<open>src/rstor/synthetic_data/dead_leaves.py\<close>).

  Channel values, radius bounds and the exponent are real numbers: the rounding of IEEE
  arithmetic (the float32 canvas, the float64 variates) is not part of this model, and where
  numpy would yield \<open>inf\<close>, \<open>nan\<close> or an integer outside int64 it stops with
  \<open>OutsideModel\<close>. The radius sampler, lines 55 to 62, is given a second time in binary64
  arithmetic (\<open>sample_radius_f64\<close>), for what depends on rounding, underflow and overflow.

  Three collaborators are not in the source file and are parameters of the model:
  numpy's random generator (a record of its operations over an abstract generator state),
  the colour sampler \<^verbatim>\<open>sample_rgb_values\<close>, and the footprint of OpenCV's filled
  circle.
\<close>

subsection \<open>Errors and data\<close>

datatype error = ZeroDivisionError | IndexError | ValueError | OverflowError | OutsideModel

type_synonym pixel = "real list"

text \<open>An array of shape \<open>(h, w, c)\<close>: rows, then pixels, then channels.\<close>

type_synonym image = "pixel list list"

type_synonym rgb = "real \<times> real \<times> real"

text \<open>
  \<open>disk (cx, cy) r (x, y)\<close>: does the filled circle of centre \<open>(cx, cy)\<close> and radius
  \<open>r\<close> drawn by \<^verbatim>\<open>cv2.circle(img, (cx, cy), r, color, -1)\<close> write the pixel of
  column \<open>x\<close> and row \<open>y\<close>?
\<close>

type_synonym footprint = "int \<times> int \<Rightarrow> int \<Rightarrow> int \<times> int \<Rightarrow> bool"

text \<open>
  The operations of \<^verbatim>\<open>np.random.Generator\<close> the function calls. Each takes the
  generator state and returns the values drawn with the next state, or the error numpy
  raises for the arguments.
  \<^item> \<open>default_rng s\<close>: \<^verbatim>\<open>np.random.default_rng(np.random.SeedSequence(s))\<close>;
  \<^item> \<open>integers g lo hi n\<close>: \<^verbatim>\<open>rng.integers(lo, hi, size=n)\<close>;
  \<^item> \<open>integers_scalar g lo hi\<close>: \<^verbatim>\<open>rng.integers(lo, hi)\<close>;
  \<^item> \<open>uniform g lo hi n\<close>: \<^verbatim>\<open>rng.uniform(lo, hi, size=n)\<close>.
\<close>

record 'g numpy_random =
  default_rng :: "int \<Rightarrow> error + 'g"
  integers :: "'g \<Rightarrow> int \<Rightarrow> int \<Rightarrow> int \<Rightarrow> error + int list \<times> 'g"
  integers_scalar :: "'g \<Rightarrow> int \<Rightarrow> int \<Rightarrow> error + int \<times> 'g"
  uniform :: "'g \<Rightarrow> real \<Rightarrow> real \<Rightarrow> int \<Rightarrow> error + real list \<times> 'g"

text \<open>\<^verbatim>\<open>sample_rgb_values(count, seed=s)\<close>, of a module that is not in the source tree.\<close>

type_synonym color_sampler = "int \<Rightarrow> int \<Rightarrow> error + rgb list"

text \<open>The arguments of \<^verbatim>\<open>dead_leaves_chart\<close>; \<open>size_hw\<close> is \<^verbatim>\<open>size\<close>.\<close>

record params =
  size_hw :: "int \<times> int"
  number_of_circles :: int
  background_color :: rgb
  colored :: bool
  radius_min :: real
  radius_max :: real
  radius_alpha :: real
  seed :: "int option"
  reverse :: bool

subsection \<open>Array operations\<close>

text \<open>\<^verbatim>\<open>np.zeros((h, w, c))\<close> and \<^verbatim>\<open>np.ones((h, w, c))\<close>: a negative dimension raises.\<close>

definition np_full :: "int \<Rightarrow> int \<Rightarrow> pixel \<Rightarrow> error + image" where
  "np_full h w px =
     (if h < 0 \<or> w < 0 then Inl ValueError
      else Inr (replicate (nat h) (replicate (nat w) px)))"

definition np_zeros :: "int \<Rightarrow> int \<Rightarrow> nat \<Rightarrow> error + image" where
  "np_zeros h w c = np_full h w (replicate c 0)"

definition np_ones :: "int \<Rightarrow> int \<Rightarrow> nat \<Rightarrow> error + image" where
  "np_ones h w c = np_full h w (replicate c 1)"

definition px3 :: "rgb \<Rightarrow> pixel" where
  "px3 c = (case c of (r, g, b) \<Rightarrow> [r, g, b])"

text \<open>\<^verbatim>\<open>cv2.circle(img, center, radius, color, -1)\<close>: every pixel of the footprint is set.\<close>

definition cv2_circle :: "footprint \<Rightarrow> image \<Rightarrow> int \<times> int \<Rightarrow> int \<Rightarrow> pixel \<Rightarrow> image" where
  "cv2_circle disk img center r color =
     map (\<lambda>(y, row).
            map (\<lambda>(x, px). if disk center r (int x, int y) then color else px)
              (enumerate 0 row))
       (enumerate 0 img)"

text \<open>\<open>a + b\<close> on arrays of one shape.\<close>

definition np_add :: "image \<Rightarrow> image \<Rightarrow> image" where
  "np_add a b = map2 (map2 (map2 (+))) a b"

text \<open>\<open>a * m\<close> for \<open>a\<close> of shape \<open>(h, w, 3)\<close> and \<open>m\<close> of shape \<open>(h, w, 1)\<close>.\<close>

definition np_mul_mask :: "image \<Rightarrow> image \<Rightarrow> image" where
  "np_mul_mask a m = map2 (map2 (\<lambda>px mp. map (\<lambda>v. v * hd mp) px)) a m"

text \<open>\<^verbatim>\<open>np.multiply(color, a)\<close> for a triple \<open>color\<close> and \<open>a\<close> of shape \<open>(h, w, 3)\<close>.\<close>

definition np_multiply_color :: "rgb \<Rightarrow> image \<Rightarrow> image" where
  "np_multiply_color c a = map (map (map2 (*) (px3 c))) a"

definition np_any :: "image \<Rightarrow> bool" where
  "np_any a = list_ex (list_ex (list_ex (\<lambda>v. v \<noteq> 0))) a"

definition np_clip :: "image \<Rightarrow> image" where
  "np_clip a = map (map (map (\<lambda>v. min 1 (max 0 v)))) a"

text \<open>\<^verbatim>\<open>chart[:, :, 0, None]\<close>.\<close>

definition first_channel :: "image \<Rightarrow> image" where
  "first_channel a = map (map (\<lambda>px. [px ! 0])) a"

subsection \<open>Compositing (lines 71 to 88)\<close>

text \<open>
  The loop of reverse mode over the indices still to visit, on the state
  \<open>(chart, buffer, is_not_covered_mask)\<close>. The buffer is not cleared between circles.
\<close>

fun reverse_loop ::
  "footprint \<Rightarrow> int list \<Rightarrow> int list \<Rightarrow> int list \<Rightarrow> rgb list \<Rightarrow> nat list \<Rightarrow>
   image \<times> image \<times> image \<Rightarrow> error + image \<times> image \<times> image" where
  "reverse_loop disk cx cy rad col [] st = Inr st"
| "reverse_loop disk cx cy rad col (i # is) (chart, buffer, is_not_covered_mask) =
     (if i < length cx \<and> i < length cy \<and> i < length rad \<and> i < length col then
        (let buffer' = cv2_circle disk buffer (cx ! i, cy ! i) (rad ! i) (px3 (col ! i));
             chart' = np_add chart (np_mul_mask buffer' is_not_covered_mask);
             mask' = cv2_circle disk is_not_covered_mask (cx ! i, cy ! i) (rad ! i) [0]
         in if \<not> np_any mask' then Inr (chart', buffer', mask')
            else reverse_loop disk cx cy rad col is (chart', buffer', mask'))
      else Inl IndexError)"

text \<open>The same loop with the two lines of the early exit removed.\<close>

fun reverse_loop_no_exit ::
  "footprint \<Rightarrow> int list \<Rightarrow> int list \<Rightarrow> int list \<Rightarrow> rgb list \<Rightarrow> nat list \<Rightarrow>
   image \<times> image \<times> image \<Rightarrow> error + image \<times> image \<times> image" where
  "reverse_loop_no_exit disk cx cy rad col [] st = Inr st"
| "reverse_loop_no_exit disk cx cy rad col (i # is) (chart, buffer, is_not_covered_mask) =
     (if i < length cx \<and> i < length cy \<and> i < length rad \<and> i < length col then
        (let buffer' = cv2_circle disk buffer (cx ! i, cy ! i) (rad ! i) (px3 (col ! i));
             chart' = np_add chart (np_mul_mask buffer' is_not_covered_mask);
             mask' = cv2_circle disk is_not_covered_mask (cx ! i, cy ! i) (rad ! i) [0]
         in reverse_loop_no_exit disk cx cy rad col is (chart', buffer', mask'))
      else Inl IndexError)"

fun forward_loop ::
  "footprint \<Rightarrow> int list \<Rightarrow> int list \<Rightarrow> int list \<Rightarrow> rgb list \<Rightarrow> nat list \<Rightarrow>
   image \<Rightarrow> error + image" where
  "forward_loop disk cx cy rad col [] chart = Inr chart"
| "forward_loop disk cx cy rad col (i # is) chart =
     (if i < length cx \<and> i < length cy \<and> i < length rad \<and> i < length col then
        forward_loop disk cx cy rad col is
          (cv2_circle disk chart (cx ! i, cy ! i) (rad ! i) (px3 (col ! i)))
      else Inl IndexError)"

text \<open>
  Lines 72 to 83, with the loop as a parameter so that the variant without the early exit
  shares everything else.
\<close>

definition composite_reverse_with ::
  "(nat list \<Rightarrow> image \<times> image \<times> image \<Rightarrow> error + image \<times> image \<times> image) \<Rightarrow>
   int \<times> int \<Rightarrow> rgb \<Rightarrow> int \<Rightarrow> error + image" where
  "composite_reverse_with loop sz bg n =
     (case np_zeros (fst sz) (snd sz) 3 of Inl e \<Rightarrow> Inl e | Inr chart \<Rightarrow>
      (case np_zeros (fst sz) (snd sz) 3 of Inl e \<Rightarrow> Inl e | Inr buffer \<Rightarrow>
      (case np_ones (fst sz) (snd sz) 1 of Inl e \<Rightarrow> Inl e | Inr is_not_covered_mask \<Rightarrow>
      (case loop [0..<nat n] (chart, buffer, is_not_covered_mask) of Inl e \<Rightarrow> Inl e
       | Inr (chart', buffer', mask') \<Rightarrow>
      (case np_ones (fst sz) (snd sz) 3 of Inl e \<Rightarrow> Inl e | Inr ones \<Rightarrow>
         Inr (np_add chart' (np_mul_mask (np_multiply_color bg ones) mask')))))))"

definition composite_reverse ::
  "footprint \<Rightarrow> int \<times> int \<Rightarrow> rgb \<Rightarrow> int list \<Rightarrow> int list \<Rightarrow> int list \<Rightarrow> rgb list \<Rightarrow> int \<Rightarrow>
   error + image" where
  "composite_reverse disk sz bg cx cy rad col n =
     composite_reverse_with (reverse_loop disk cx cy rad col) sz bg n"

definition composite_reverse_no_exit ::
  "footprint \<Rightarrow> int \<times> int \<Rightarrow> rgb \<Rightarrow> int list \<Rightarrow> int list \<Rightarrow> int list \<Rightarrow> rgb list \<Rightarrow> int \<Rightarrow>
   error + image" where
  "composite_reverse_no_exit disk sz bg cx cy rad col n =
     composite_reverse_with (reverse_loop_no_exit disk cx cy rad col) sz bg n"

text \<open>Lines 85 to 88.\<close>

definition composite_forward ::
  "footprint \<Rightarrow> int \<times> int \<Rightarrow> rgb \<Rightarrow> int list \<Rightarrow> int list \<Rightarrow> int list \<Rightarrow> rgb list \<Rightarrow> int \<Rightarrow>
   error + image" where
  "composite_forward disk sz bg cx cy rad col n =
     (case np_ones (fst sz) (snd sz) 3 of Inl e \<Rightarrow> Inl e | Inr ones \<Rightarrow>
        forward_loop disk cx cy rad col [0..<nat n] (np_multiply_color bg ones))"

text \<open>Lines 90 to 93.\<close>

definition finalize :: "bool \<Rightarrow> image \<Rightarrow> image" where
  "finalize is_colored chart =
     (let clipped = np_clip chart
      in if \<not> is_colored then first_channel clipped else clipped)"

text \<open>Lines 71 to 93 on the sampled arrays.\<close>

definition render ::
  "footprint \<Rightarrow> int \<times> int \<Rightarrow> rgb \<Rightarrow> bool \<Rightarrow> bool \<Rightarrow>
   int list \<Rightarrow> int list \<Rightarrow> int list \<Rightarrow> rgb list \<Rightarrow> int \<Rightarrow> error + image" where
  "render disk sz bg is_colored is_reverse cx cy rad col n =
     (case (if is_reverse then composite_reverse disk sz bg cx cy rad col n
            else composite_forward disk sz bg cx cy rad col n) of
        Inl e \<Rightarrow> Inl e
      | Inr chart \<Rightarrow> Inr (finalize is_colored chart))"

subsection \<open>Sampling (lines 40 to 69)\<close>

text \<open>Lines 42 to 47: the defaults that replace negative arguments.\<close>

definition effective_count :: "params \<Rightarrow> int" where
  "effective_count p =
     (if number_of_circles p < 0 then 30 * max (fst (size_hw p)) (snd (size_hw p))
      else number_of_circles p)"

definition effective_radius_min :: "params \<Rightarrow> real" where
  "effective_radius_min p = (if radius_min p < 0 then 1 else radius_min p)"

definition effective_radius_max :: "params \<Rightarrow> real" where
  "effective_radius_max p = (if radius_max p < 0 then 2000 else radius_max p)"

text \<open>
  Python's \<open>x ** y\<close> on numbers: a zero base with a negative exponent raises. The base is
  never negative here (lines 44 to 47), where Python would give a complex number.
\<close>

definition py_pow :: "real \<Rightarrow> real \<Rightarrow> error + real" where
  "py_pow x y =
     (if 0 < x then Inr (x powr y)
      else if x = 0 then
        (if y < 0 then Inl ZeroDivisionError else if y = 0 then Inr 1 else Inr 0)
      else Inl OutsideModel)"

definition py_div :: "real \<Rightarrow> real \<Rightarrow> error + real" where
  "py_div a b = (if b = 0 then Inl ZeroDivisionError else Inr (a / b))"

text \<open>
  numpy's elementwise \<open>u ** e\<close> on a positive base, and on a zero base with an exponent that
  is not negative. For a zero base with a negative exponent numpy goes on with \<open>inf\<close>, and a
  negative base cannot come from a draw between two bounds that are not negative: there
  \<open>radius_of\<close> below gives \<open>OutsideModel\<close>, as it does for a rounded value that int64
  cannot hold.
\<close>

definition np_power :: "real \<Rightarrow> real \<Rightarrow> real" where
  "np_power u e = (if 0 < u then u powr e else if e = 0 then 1 else 0)"

text \<open>\<^verbatim>\<open>round()\<close> of numpy: to the nearest integer, a tie to the even one.\<close>

definition np_round :: "real \<Rightarrow> int" where
  "np_round r =
     (let f = \<lfloor>r\<rfloor>; d = r - of_int f
      in if d < 1 / 2 then f else if 1 / 2 < d then f + 1
         else if even f then f else f + 1)"

text \<open>Lines 61 and 62 on one variate, for the exponent \<open>e\<close>.\<close>

definition radius_of :: "real \<Rightarrow> real \<Rightarrow> error + int" where
  "radius_of e u =
     (if 0 < u \<or> (u = 0 \<and> 0 \<le> e) then
        (let r = np_round (np_power u e)
         in if - (2 ^ 63) \<le> r \<and> r < 2 ^ 63 then Inr r else Inl OutsideModel)
      else Inl OutsideModel)"

fun traverse :: "('a \<Rightarrow> error + 'b) \<Rightarrow> 'a list \<Rightarrow> error + 'b list" where
  "traverse f [] = Inr []"
| "traverse f (x # xs) =
     (case f x of Inl e \<Rightarrow> Inl e
      | Inr y \<Rightarrow> (case traverse f xs of Inl e \<Rightarrow> Inl e | Inr ys \<Rightarrow> Inr (y # ys)))"

text \<open>
  The sampling steps take the generator state and return their result with the state
  reached, also when they fail.
\<close>

text \<open>Lines 50 and 51.\<close>

definition sample_centers ::
  "'g numpy_random \<Rightarrow> params \<Rightarrow> 'g \<Rightarrow> (error + int list \<times> int list) \<times> 'g" where
  "sample_centers np p g =
     (case integers np g 0 (snd (size_hw p)) (effective_count p) of
        Inl e \<Rightarrow> (Inl e, g)
      | Inr (center_x, g1) \<Rightarrow>
          (case integers np g1 0 (fst (size_hw p)) (effective_count p) of
             Inl e \<Rightarrow> (Inl e, g1)
           | Inr (center_y, g2) \<Rightarrow> (Inr (center_x, center_y), g2)))"

text \<open>Lines 55 to 62.\<close>

definition sample_radius :: "'g numpy_random \<Rightarrow> params \<Rightarrow> 'g \<Rightarrow> (error + int list) \<times> 'g" where
  "sample_radius np p g =
     (case py_pow (effective_radius_max p) (1 - radius_alpha p) of
        Inl e \<Rightarrow> (Inl e, g)
      | Inr low \<Rightarrow>
     (case py_pow (effective_radius_min p) (1 - radius_alpha p) of
        Inl e \<Rightarrow> (Inl e, g)
      | Inr high \<Rightarrow>
     (case uniform np g low high (effective_count p) of
        Inl e \<Rightarrow> (Inl e, g)
      | Inr (us, g1) \<Rightarrow>
     (case py_div (- 1) (radius_alpha p - 1) of
        Inl e \<Rightarrow> (Inl e, g1)
      | Inr e \<Rightarrow>
     (case traverse (radius_of e) us of
        Inl err \<Rightarrow> (Inl err, g1)
      | Inr radius \<Rightarrow> (Inr radius, g1))))))"

text \<open>Lines 50 to 62: centres, then radii.\<close>

definition sample_geometry ::
  "'g numpy_random \<Rightarrow> params \<Rightarrow> 'g \<Rightarrow> (error + int list \<times> int list \<times> int list) \<times> 'g" where
  "sample_geometry np p g =
     (case sample_centers np p g of
        (Inl e, g1) \<Rightarrow> (Inl e, g1)
      | (Inr (center_x, center_y), g1) \<Rightarrow>
          (case sample_radius np p g1 of
             (Inl e, g2) \<Rightarrow> (Inl e, g2)
           | (Inr radius, g2) \<Rightarrow> (Inr (center_x, center_y, radius), g2)))"

text \<open>Lines 65 to 69.\<close>

definition sample_color ::
  "'g numpy_random \<Rightarrow> color_sampler \<Rightarrow> params \<Rightarrow> 'g \<Rightarrow> (error + rgb list) \<times> 'g" where
  "sample_color np sample_rgb_values p g =
     (if colored p then
        (case integers_scalar np g 0 (10 ^ 10) of
           Inl e \<Rightarrow> (Inl e, g)
         | Inr (sub_seed, g1) \<Rightarrow>
             (case sample_rgb_values (effective_count p) sub_seed of
                Inl e \<Rightarrow> (Inl e, g1)
              | Inr color \<Rightarrow> (Inr color, g1)))
      else
        (case uniform np g (1 / 4) (3 / 4) (effective_count p) of
           Inl e \<Rightarrow> (Inl e, g)
         | Inr (color, g1) \<Rightarrow> (Inr (map (\<lambda>c. (c, c, c)) color), g1)))"

subsection \<open>The entry point\<close>

text \<open>Lines 42 to 94, from the generator state that line 40 made.\<close>

definition chart_with_rng ::
  "'g numpy_random \<Rightarrow> color_sampler \<Rightarrow> footprint \<Rightarrow> params \<Rightarrow> 'g \<Rightarrow> (error + image) \<times> 'g" where
  "chart_with_rng np sample_rgb_values disk p g =
     (case sample_geometry np p g of
        (Inl e, g1) \<Rightarrow> (Inl e, g1)
      | (Inr (center_x, center_y, radius), g1) \<Rightarrow>
          (case sample_color np sample_rgb_values p g1 of
             (Inl e, g2) \<Rightarrow> (Inl e, g2)
           | (Inr color, g2) \<Rightarrow>
               (render disk (size_hw p) (background_color p) (colored p) (reverse p)
                  center_x center_y radius color (effective_count p), g2)))"

text \<open>
  \<^verbatim>\<open>dead_leaves_chart\<close>. With \<^verbatim>\<open>seed=None\<close> numpy seeds the generator from the
  entropy of the operating system, which is the argument \<open>entropy\<close>.
\<close>

definition dead_leaves_chart ::
  "'g numpy_random \<Rightarrow> color_sampler \<Rightarrow> footprint \<Rightarrow> int \<Rightarrow> params \<Rightarrow> error + image" where
  "dead_leaves_chart np sample_rgb_values disk entropy p =
     (case default_rng np (case seed p of None \<Rightarrow> entropy | Some s \<Rightarrow> s) of
        Inl e \<Rightarrow> Inl e
      | Inr g \<Rightarrow> fst (chart_with_rng np sample_rgb_values disk p g))"

subsection \<open>What the specification says\<close>

text \<open>
  The covering circles of a pixel, by index: the first one in list order, and the last.
\<close>

definition covers ::
  "footprint \<Rightarrow> int list \<Rightarrow> int list \<Rightarrow> int list \<Rightarrow> nat \<times> nat \<Rightarrow> nat \<Rightarrow> bool" where
  "covers disk cx cy rad xy i =
     disk (cx ! i, cy ! i) (rad ! i) (int (fst xy), int (snd xy))"

definition first_covering ::
  "footprint \<Rightarrow> int list \<Rightarrow> int list \<Rightarrow> int list \<Rightarrow> nat \<Rightarrow> nat \<times> nat \<Rightarrow> nat option" where
  "first_covering disk cx cy rad n xy = find (covers disk cx cy rad xy) [0..<n]"

definition last_covering ::
  "footprint \<Rightarrow> int list \<Rightarrow> int list \<Rightarrow> int list \<Rightarrow> nat \<Rightarrow> nat \<times> nat \<Rightarrow> nat option" where
  "last_covering disk cx cy rad n xy = find (covers disk cx cy rad xy) (rev [0..<n])"

text \<open>The colour the specification gives a pixel: the winning circle's, else the background.\<close>

definition spec_color ::
  "footprint \<Rightarrow> bool \<Rightarrow> rgb \<Rightarrow> int list \<Rightarrow> int list \<Rightarrow> int list \<Rightarrow> rgb list \<Rightarrow> nat \<Rightarrow>
   nat \<times> nat \<Rightarrow> rgb" where
  "spec_color disk is_reverse bg cx cy rad col n xy =
     (case (if is_reverse then first_covering disk cx cy rad n xy
            else last_covering disk cx cy rad n xy) of
        None \<Rightarrow> bg
      | Some i \<Rightarrow> col ! i)"

text \<open>The channels of the returned buffer for a colour: three, or one in gray mode.\<close>

definition channels :: "bool \<Rightarrow> rgb \<Rightarrow> pixel" where
  "channels is_colored c = (if is_colored then px3 c else [fst c])"

definition unit_rgb :: "rgb \<Rightarrow> bool" where
  "unit_rgb c = list_all (\<lambda>v. 0 \<le> v \<and> v \<le> 1) (px3 c)"


text \<open>
  Modelled from the spec: the rasterisation of a disk, which fills the pixels whose squared
  distance from the centre is at most the squared radius. The code leaves it to OpenCV.
\<close>

definition spec_disk :: footprint where
  "spec_disk center r xy =
     ((fst xy - fst center)\<^sup>2 + (snd xy - snd center)\<^sup>2 \<le> r\<^sup>2)"

subsection \<open>A generator to run the model on\<close>

text \<open>
  A generator whose state counts the draws made on it and whose draws all return the lower
  bound, and a colour sampler that returns red.
\<close>

definition counting_rng :: "nat numpy_random" where
  "counting_rng =
     \<lparr> default_rng = (\<lambda>s. if s < 0 then Inl ValueError else Inr 0),
       integers = (\<lambda>g lo hi n.
          if n < 0 \<or> (0 < n \<and> hi \<le> lo) then Inl ValueError
          else Inr (replicate (nat n) lo, Suc g)),
       integers_scalar = (\<lambda>g lo hi. if hi \<le> lo then Inl ValueError else Inr (lo, Suc g)),
       uniform = (\<lambda>g lo hi n.
          if n < 0 then Inl ValueError else Inr (replicate (nat n) lo, Suc g)) \<rparr>"

definition red_sampler :: color_sampler where
  "red_sampler n s = (if n < 0 then Inl ValueError else Inr (replicate (nat n) (1, 0, 0)))"

subsection \<open>Shapes and the invariant of the reverse loop\<close>

text \<open>An array has shape \<open>(h, w, c)\<close>.\<close>

definition has_shape :: "nat \<Rightarrow> nat \<Rightarrow> nat \<Rightarrow> image \<Rightarrow> bool" where
  "has_shape h w c a =
     (length a = h \<and> list_all (\<lambda>row. length row = w \<and> list_all (\<lambda>px. length px = c) row) a)"

text \<open>
  After the circles \<open>done\<close>, in this order: a pixel that one of them covers has the
  colour of the first that does and a zero mask, and any other pixel is zero in the chart and
  in the buffer, with mask one.
\<close>

definition rev_inv ::
  "footprint \<Rightarrow> int list \<Rightarrow> int list \<Rightarrow> int list \<Rightarrow> rgb list \<Rightarrow> nat list \<Rightarrow> nat \<Rightarrow> nat \<Rightarrow>
   image \<times> image \<times> image \<Rightarrow> bool" where
  "rev_inv disk cx cy rad col done h w st =
     (case st of (chart, buffer, m) \<Rightarrow>
        has_shape h w 3 chart \<and> has_shape h w 3 buffer \<and> has_shape h w 1 m \<and>
        (\<forall>y<h. \<forall>x<w.
           (case find (covers disk cx cy rad (x, y)) done of
              None \<Rightarrow> chart ! y ! x = [0, 0, 0] \<and> buffer ! y ! x = [0, 0, 0] \<and> m ! y ! x = [1]
            | Some i \<Rightarrow> chart ! y ! x = px3 (col ! i) \<and> m ! y ! x = [0])))"

text \<open>One iteration of the reverse loop on its state.\<close>

definition rev_step ::
  "footprint \<Rightarrow> int list \<Rightarrow> int list \<Rightarrow> int list \<Rightarrow> rgb list \<Rightarrow> nat \<Rightarrow>
   image \<times> image \<times> image \<Rightarrow> image \<times> image \<times> image" where
  "rev_step disk cx cy rad col i st =
     (case st of (chart, buffer, m) \<Rightarrow>
        (np_add chart
           (np_mul_mask (cv2_circle disk buffer (cx ! i, cy ! i) (rad ! i) (px3 (col ! i))) m),
         cv2_circle disk buffer (cx ! i, cy ! i) (rad ! i) (px3 (col ! i)),
         cv2_circle disk m (cx ! i, cy ! i) (rad ! i) [0]))"

text \<open>The four arrays have an entry at index \<open>i\<close>.\<close>

definition in_range :: "int list \<Rightarrow> int list \<Rightarrow> int list \<Rightarrow> rgb list \<Rightarrow> nat \<Rightarrow> bool" where
  "in_range cx cy rad col i \<longleftrightarrow>
     i < length cx \<and> i < length cy \<and> i < length rad \<and> i < length col"

text \<open>Every channel value of an array is in \<open>[0, 1]\<close>.\<close>

definition unit_image :: "image \<Rightarrow> bool" where
  "unit_image a = list_all (list_all (list_all (\<lambda>v. 0 \<le> v \<and> v \<le> 1))) a"

text \<open>Arguments for a small chart: one circle on a canvas of one row and two columns.\<close>

definition small_params :: params where
  "small_params =
     \<lparr> size_hw = (1, 2), number_of_circles = 1, background_color = (1 / 2, 1 / 2, 1 / 2),
       colored = False, radius_min = - 1, radius_max = - 1, radius_alpha = 3,
       seed = Some 0, reverse = True \<rparr>"


subsection \<open>A generator that checks its bounds\<close>


text \<open>The counting generator with this check.\<close>

definition strict_rng :: "nat numpy_random" where
  "strict_rng =
     counting_rng
       \<lparr> uniform := (\<lambda>g lo hi n.
            if hi < lo then Inl ValueError else uniform counting_rng g lo hi n) \<rparr>"

subsection \<open>The radius sampler in binary64 arithmetic\<close>

text \<open>
  Lines 55 to 62 in binary64 arithmetic. \<open>f64\<close> rounds a real to the nearest double, a tie
  to the even significand, with the subnormal numbers below \<open>2 ^ -1022\<close>; a rounded
  value of \<open>2 ^ 1024\<close> or more stands for an infinity.
\<close>

definition f64 :: "real \<Rightarrow> real" where
  "f64 x =
     (if x = 0 then 0
      else (let e = max \<lfloor>log 2 \<bar>x\<bar>\<rfloor> (- 1022); q = 2 powr (of_int e - 52)
            in sgn x * (of_int (np_round (\<bar>x\<bar> / q)) * q)))"

definition f64_finite :: "real \<Rightarrow> bool" where
  "f64_finite v = (\<bar>v\<bar> < 2 ^ 1024)"

text \<open>
  Python's \<open>x ** y\<close> on floats: the rounded power, \<^verbatim>\<open>OverflowError\<close> when it
  overflows. An underflow is silent: the result is \<open>0.0\<close> or a subnormal number.
\<close>

definition py_pow_f64 :: "real \<Rightarrow> real \<Rightarrow> error + real" where
  "py_pow_f64 x y =
     (if 0 < x then
        (let v = f64 (x powr y) in if f64_finite v then Inr v else Inl OverflowError)
      else if x = 0 then
        (if y < 0 then Inl ZeroDivisionError else if y = 0 then Inr 1 else Inr 0)
      else Inl OutsideModel)"

text \<open>
  Python's \<open>a / b\<close> on floats; a quotient that overflows is an infinity, which the model
  does not follow further.
\<close>

definition py_div_f64 :: "real \<Rightarrow> real \<Rightarrow> error + real" where
  "py_div_f64 a b =
     (if b = 0 then Inl ZeroDivisionError
      else (let v = f64 (a / b) in if f64_finite v then Inr v else Inl OutsideModel))"

text \<open>
  numpy's elementwise \<open>u ** e\<close> on a base that is not negative: \<open>None\<close> is \<open>inf\<close>, which
  numpy returns with a warning and no exception.
\<close>

definition np_power_f64 :: "real \<Rightarrow> real \<Rightarrow> real option" where
  "np_power_f64 u e =
     (if 0 < u then (let v = f64 (u powr e) in if f64_finite v then Some v else None)
      else if e < 0 then None else if e = 0 then Some 1 else Some 0)"

text \<open>
  \<^verbatim>\<open>.round().astype(int)\<close>: numpy leaves the cast of \<open>inf\<close> and of a value outside
  int64 to the C compiler, and on x86-64 the result is \<open>-2 ^ 63\<close>.
\<close>

definition astype_int :: "real option \<Rightarrow> int" where
  "astype_int v =
     (case v of
        None \<Rightarrow> - (2 ^ 63)
      | Some r \<Rightarrow> (let k = np_round r in if - (2 ^ 63) \<le> k \<and> k < 2 ^ 63 then k else - (2 ^ 63)))"

text \<open>Lines 61 and 62 on one variate; a negative variate is outside the model.\<close>

definition radius_of_f64 :: "real \<Rightarrow> real \<Rightarrow> error + int" where
  "radius_of_f64 e u =
     (if u < 0 then Inl OutsideModel else Inr (astype_int (np_power_f64 u e)))"

text \<open>Lines 55 to 62 in binary64 arithmetic, on arguments that are floats.\<close>

definition sample_radius_f64 ::
  "'g numpy_random \<Rightarrow> params \<Rightarrow> 'g \<Rightarrow> (error + int list) \<times> 'g" where
  "sample_radius_f64 np p g =
     (case py_pow_f64 (effective_radius_max p) (f64 (1 - radius_alpha p)) of
        Inl e \<Rightarrow> (Inl e, g)
      | Inr low \<Rightarrow>
     (case py_pow_f64 (effective_radius_min p) (f64 (1 - radius_alpha p)) of
        Inl e \<Rightarrow> (Inl e, g)
      | Inr high \<Rightarrow>
     (case uniform np g low high (effective_count p) of
        Inl e \<Rightarrow> (Inl e, g)
      | Inr (us, g1) \<Rightarrow>
     (case py_div_f64 (- 1) (f64 (radius_alpha p - 1)) of
        Inl e \<Rightarrow> (Inl e, g1)
      | Inr e \<Rightarrow>
     (case traverse (radius_of_f64 e) us of
        Inl err \<Rightarrow> (Inl err, g1)
      | Inr radius \<Rightarrow> (Inr radius, g1))))))"


section \<open>Array operations, pixel by pixel\<close>

lemma has_shape_iff:
  "has_shape h w c a \<longleftrightarrow>
     length a = h \<and> (\<forall>y<h. length (a ! y) = w \<and> (\<forall>x<w. length (a ! y ! x) = c))"
  by (auto simp: has_shape_def list_all_length)

lemma has_shape_px: "has_shape h w c a \<Longrightarrow> y < h \<Longrightarrow> x < w \<Longrightarrow> length (a ! y ! x) = c"
  by (simp add: has_shape_iff)

lemma image_eqI:
  assumes "has_shape h w c a" "has_shape h w c b"
    and "\<And>y x. y < h \<Longrightarrow> x < w \<Longrightarrow> a ! y ! x = b ! y ! x"
  shows "a = b"
proof (rule nth_equalityI)
  show "length a = length b" using assms(1,2) by (simp add: has_shape_iff)
next
  fix y assume "y < length a"
  then have y: "y < h" using assms(1) by (simp add: has_shape_iff)
  show "a ! y = b ! y"
  proof (rule nth_equalityI)
    show "length (a ! y) = length (b ! y)" using assms(1,2) y by (simp add: has_shape_iff)
  next
    fix x assume "x < length (a ! y)"
    then have "x < w" using assms(1) y by (simp add: has_shape_iff)
    then show "a ! y ! x = b ! y ! x" using assms(3) y by simp
  qed
qed

lemma has_shape_cv2_circle:
  "has_shape h w c a \<Longrightarrow> length color = c \<Longrightarrow> has_shape h w c (cv2_circle disk a center r color)"
  by (simp add: has_shape_iff cv2_circle_def nth_enumerate_eq)

lemma nth_cv2_circle:
  "has_shape h w c a \<Longrightarrow> y < h \<Longrightarrow> x < w \<Longrightarrow>
     cv2_circle disk a center r color ! y ! x =
       (if disk center r (int x, int y) then color else a ! y ! x)"
  by (simp add: has_shape_iff cv2_circle_def nth_enumerate_eq)

lemma has_shape_np_add:
  "has_shape h w c a \<Longrightarrow> has_shape h w c b \<Longrightarrow> has_shape h w c (np_add a b)"
  by (simp add: has_shape_iff np_add_def)

lemma nth_np_add:
  "has_shape h w c a \<Longrightarrow> has_shape h w c b \<Longrightarrow> y < h \<Longrightarrow> x < w \<Longrightarrow>
     np_add a b ! y ! x = map2 (+) (a ! y ! x) (b ! y ! x)"
  by (simp add: has_shape_iff np_add_def)

lemma has_shape_np_mul_mask:
  "has_shape h w c a \<Longrightarrow> has_shape h w k m \<Longrightarrow> has_shape h w c (np_mul_mask a m)"
  by (simp add: has_shape_iff np_mul_mask_def)

lemma nth_np_mul_mask:
  "has_shape h w c a \<Longrightarrow> has_shape h w k m \<Longrightarrow> y < h \<Longrightarrow> x < w \<Longrightarrow>
     np_mul_mask a m ! y ! x = map (\<lambda>v. v * hd (m ! y ! x)) (a ! y ! x)"
  by (simp add: has_shape_iff np_mul_mask_def)

lemma has_shape_np_multiply_color:
  "has_shape h w 3 a \<Longrightarrow> has_shape h w 3 (np_multiply_color c a)"
  by (cases c) (simp add: has_shape_iff np_multiply_color_def px3_def)

lemma nth_np_multiply_color:
  "has_shape h w k a \<Longrightarrow> y < h \<Longrightarrow> x < w \<Longrightarrow>
     np_multiply_color c a ! y ! x = map2 (*) (px3 c) (a ! y ! x)"
  by (simp add: has_shape_iff np_multiply_color_def)

lemma has_shape_np_clip: "has_shape h w c a \<Longrightarrow> has_shape h w c (np_clip a)"
  by (simp add: has_shape_iff np_clip_def)

lemma nth_np_clip:
  "has_shape h w c a \<Longrightarrow> y < h \<Longrightarrow> x < w \<Longrightarrow>
     np_clip a ! y ! x = map (\<lambda>v. min 1 (max 0 v)) (a ! y ! x)"
  by (simp add: has_shape_iff np_clip_def)

lemma has_shape_first_channel: "has_shape h w c a \<Longrightarrow> has_shape h w 1 (first_channel a)"
  by (simp add: has_shape_iff first_channel_def)

lemma nth_first_channel:
  "has_shape h w c a \<Longrightarrow> y < h \<Longrightarrow> x < w \<Longrightarrow> first_channel a ! y ! x = [a ! y ! x ! 0]"
  by (simp add: has_shape_iff first_channel_def)

lemma np_any_iff:
  "has_shape h w c a \<Longrightarrow>
     np_any a \<longleftrightarrow> (\<exists>y<h. \<exists>x<w. \<exists>v\<in>set (a ! y ! x). v \<noteq> 0)"
  unfolding np_any_def has_shape_iff list_ex_iff
  by (metis in_set_conv_nth)

lemma find_snoc:
  "find P (xs @ [i]) = (case find P xs of Some j \<Rightarrow> Some j | None \<Rightarrow> if P i then Some i else None)"
  by (induction xs) auto

lemma find_append_Some: "find P xs = Some j \<Longrightarrow> find P (xs @ ys) = Some j"
  by (induction xs) (auto split: if_splits)

lemma map2_add_zero:
  "length q \<le> length px \<Longrightarrow> map2 (+) q (map (\<lambda>v. 0::real) px) = q"
  by (rule nth_equalityI) simp_all

lemma length_px3 [simp]: "length (px3 c) = 3"
  by (cases c) (simp add: px3_def)

lemma px3_plus: "map2 (+) [0, 0, 0] (px3 c) = px3 c"
  by (cases c) (simp add: px3_def)

lemma rev_inv_step:
  assumes inv: "rev_inv disk cx cy rad col done h w st"
  shows "rev_inv disk cx cy rad col (done @ [i]) h w (rev_step disk cx cy rad col i st)"
proof -
  obtain chart buffer m where st: "st = (chart, buffer, m)" by (cases st)
  let ?c = "(cx ! i, cy ! i)" and ?r = "rad ! i"
  let ?b1 = "cv2_circle disk buffer ?c ?r (px3 (col ! i))"
  let ?m1 = "cv2_circle disk m ?c ?r [0]"
  let ?c1 = "np_add chart (np_mul_mask ?b1 m)"
  from inv st have sc: "has_shape h w 3 chart" and sb: "has_shape h w 3 buffer"
    and sm: "has_shape h w 1 m"
    by (simp_all add: rev_inv_def)
  have sb1: "has_shape h w 3 ?b1" using sb by (simp add: has_shape_cv2_circle)
  have sm1: "has_shape h w 1 ?m1" using sm by (simp add: has_shape_cv2_circle)
  have smul: "has_shape h w 3 (np_mul_mask ?b1 m)"
    using sb1 sm by (rule has_shape_np_mul_mask)
  have sc1: "has_shape h w 3 ?c1" using sc smul by (rule has_shape_np_add)
  have pt: "case find (covers disk cx cy rad (x, y)) (done @ [i]) of
              None \<Rightarrow> ?c1 ! y ! x = [0, 0, 0] \<and> ?b1 ! y ! x = [0, 0, 0] \<and> ?m1 ! y ! x = [1]
            | Some j \<Rightarrow> ?c1 ! y ! x = px3 (col ! j) \<and> ?m1 ! y ! x = [0]"
    if y: "y < h" and x: "x < w" for y x
  proof -
    have c1: "?c1 ! y ! x = map2 (+) (chart ! y ! x) (map (\<lambda>v. v * hd (m ! y ! x)) (?b1 ! y ! x))"
      using sc smul sb1 sm y x by (simp add: nth_np_add nth_np_mul_mask)
    have b1: "?b1 ! y ! x = (if disk ?c ?r (int x, int y) then px3 (col ! i) else buffer ! y ! x)"
      using sb y x by (rule nth_cv2_circle)
    have m1: "?m1 ! y ! x = (if disk ?c ?r (int x, int y) then [0] else m ! y ! x)"
      using sm y x by (rule nth_cv2_circle)
    have lb1: "length (?b1 ! y ! x) = 3" using sb1 y x by (rule has_shape_px)
    from inv st y x have old:
      "case find (covers disk cx cy rad (x, y)) done of
         None \<Rightarrow> chart ! y ! x = [0, 0, 0] \<and> buffer ! y ! x = [0, 0, 0] \<and> m ! y ! x = [1]
       | Some j \<Rightarrow> chart ! y ! x = px3 (col ! j) \<and> m ! y ! x = [0]"
      by (simp add: rev_inv_def)
    show ?thesis
    proof (cases "find (covers disk cx cy rad (x, y)) done")
      case (Some j)
      with old have ch: "chart ! y ! x = px3 (col ! j)" and mm: "m ! y ! x = [0]" by simp_all
      have "?c1 ! y ! x = px3 (col ! j)"
        unfolding c1 ch mm using lb1 by (simp add: map2_add_zero)
      moreover have "?m1 ! y ! x = [0]" unfolding m1 mm by simp
      ultimately show ?thesis using Some by (simp add: find_snoc)
    next
      case None
      with old have ch: "chart ! y ! x = [0, 0, 0]" and bb: "buffer ! y ! x = [0, 0, 0]"
        and mm: "m ! y ! x = [1]" by simp_all
      show ?thesis
      proof (cases "disk ?c ?r (int x, int y)")
        case True
        then have "?c1 ! y ! x = px3 (col ! i)"
          unfolding c1 ch mm b1 by (simp add: px3_plus)
        moreover have "?m1 ! y ! x = [0]" unfolding m1 using True by simp
        ultimately show ?thesis using None True by (simp add: find_snoc covers_def)
      next
        case False
        then have "?c1 ! y ! x = [0, 0, 0]" unfolding c1 ch mm b1 bb by simp
        moreover have "?b1 ! y ! x = [0, 0, 0]" unfolding b1 bb using False by simp
        moreover have "?m1 ! y ! x = [1]" unfolding m1 mm using False by simp
        ultimately show ?thesis using None False by (simp add: find_snoc covers_def)
      qed
    qed
  qed
  show ?thesis
    unfolding st rev_step_def rev_inv_def using sc1 sb1 sm1 pt by simp
qed

lemma rev_inv_at:
  assumes "rev_inv disk cx cy rad col done h w (chart, buffer, m)" "y < h" "x < w"
  shows "case find (covers disk cx cy rad (x, y)) done of
           None \<Rightarrow> chart ! y ! x = [0, 0, 0] \<and> buffer ! y ! x = [0, 0, 0] \<and> m ! y ! x = [1]
         | Some j \<Rightarrow> chart ! y ! x = px3 (col ! j) \<and> m ! y ! x = [0]"
  using assms by (simp add: rev_inv_def)

lemma rev_inv_extend:
  assumes inv: "rev_inv disk cx cy rad col done h w st"
    and full: "\<not> np_any (snd (snd st))"
  shows "rev_inv disk cx cy rad col (done @ rest) h w st"
proof -
  obtain chart buffer m where st: "st = (chart, buffer, m)" by (cases st)
  from inv st have sm: "has_shape h w 1 m" by (simp add: rev_inv_def)
  have "case find (covers disk cx cy rad (x, y)) (done @ rest) of
          None \<Rightarrow> chart ! y ! x = [0, 0, 0] \<and> buffer ! y ! x = [0, 0, 0] \<and> m ! y ! x = [1]
        | Some j \<Rightarrow> chart ! y ! x = px3 (col ! j) \<and> m ! y ! x = [0]"
    if y: "y < h" and x: "x < w" for y x
  proof (cases "find (covers disk cx cy rad (x, y)) done")
    case None
    with rev_inv_at [OF inv [unfolded st] y x] have "m ! y ! x = [1]" by simp
    then have "\<exists>v\<in>set (m ! y ! x). v \<noteq> 0" by simp
    with y x have "np_any m" unfolding np_any_iff [OF sm] by blast
    with full st show ?thesis by simp
  next
    case (Some j)
    with rev_inv_at [OF inv [unfolded st] y x]
    have "chart ! y ! x = px3 (col ! j) \<and> m ! y ! x = [0]" by simp
    then show ?thesis using find_append_Some [OF Some, of rest] by simp
  qed
  with inv st show ?thesis by (simp add: rev_inv_def)
qed

lemma reverse_loop_inv:
  assumes "rev_inv disk cx cy rad col done h w st"
    and "list_all (in_range cx cy rad col) is"
  shows "\<exists>st'. reverse_loop disk cx cy rad col is st = Inr st' \<and>
           rev_inv disk cx cy rad col (done @ is) h w st'"
  using assms
proof (induction "is" arbitrary: "done" st)
  case Nil
  then show ?case by simp
next
  case (Cons i "is")
  obtain chart buffer m where st: "st = (chart, buffer, m)" by (cases st)
  let ?st1 = "rev_step disk cx cy rad col i st"
  have inv1: "rev_inv disk cx cy rad col (done @ [i]) h w ?st1"
    using Cons.prems(1) by (rule rev_inv_step)
  have rng: "i < length cx \<and> i < length cy \<and> i < length rad \<and> i < length col"
    using Cons.prems(2) by (simp add: in_range_def)
  show ?case
  proof (cases "np_any (snd (snd ?st1))")
    case False
    then have "reverse_loop disk cx cy rad col (i # is) st = Inr ?st1"
      using rng by (simp add: st rev_step_def Let_def)
    moreover have "rev_inv disk cx cy rad col ((done @ [i]) @ is) h w ?st1"
      using inv1 False by (rule rev_inv_extend)
    ultimately show ?thesis by simp
  next
    case True
    then have "reverse_loop disk cx cy rad col (i # is) st =
                 reverse_loop disk cx cy rad col is ?st1"
      using rng by (simp add: st rev_step_def Let_def)
    moreover from Cons.IH [OF inv1] Cons.prems(2)
    obtain st' where "reverse_loop disk cx cy rad col is ?st1 = Inr st'"
      and "rev_inv disk cx cy rad col ((done @ [i]) @ is) h w st'"
      by auto
    ultimately show ?thesis by simp
  qed
qed

lemma reverse_loop_no_exit_inv:
  assumes "rev_inv disk cx cy rad col done h w st"
    and "list_all (in_range cx cy rad col) is"
  shows "\<exists>st'. reverse_loop_no_exit disk cx cy rad col is st = Inr st' \<and>
           rev_inv disk cx cy rad col (done @ is) h w st'"
  using assms
proof (induction "is" arbitrary: "done" st)
  case Nil
  then show ?case by simp
next
  case (Cons i "is")
  obtain chart buffer m where st: "st = (chart, buffer, m)" by (cases st)
  let ?st1 = "rev_step disk cx cy rad col i st"
  have inv1: "rev_inv disk cx cy rad col (done @ [i]) h w ?st1"
    using Cons.prems(1) by (rule rev_inv_step)
  have rng: "i < length cx \<and> i < length cy \<and> i < length rad \<and> i < length col"
    using Cons.prems(2) by (simp add: in_range_def)
  have "reverse_loop_no_exit disk cx cy rad col (i # is) st =
          reverse_loop_no_exit disk cx cy rad col is ?st1"
    using rng by (simp add: st rev_step_def Let_def)
  moreover from Cons.IH [OF inv1] Cons.prems(2)
  obtain st' where "reverse_loop_no_exit disk cx cy rad col is ?st1 = Inr st'"
    and "rev_inv disk cx cy rad col ((done @ [i]) @ is) h w st'"
    by auto
  ultimately show ?case by simp
qed

lemma rev_inv_init:
  "rev_inv disk cx cy rad col [] h w
     (replicate h (replicate w [0, 0, 0]), replicate h (replicate w [0, 0, 0]),
      replicate h (replicate w [1]))"
  by (simp add: rev_inv_def has_shape_iff)

lemma in_range_upt:
  "n \<le> length cx \<Longrightarrow> n \<le> length cy \<Longrightarrow> n \<le> length rad \<Longrightarrow> n \<le> length col \<Longrightarrow>
     list_all (in_range cx cy rad col) [0..<n]"
  by (simp add: list_all_iff in_range_def)

lemma composite_reverse_with_pointwise:
  assumes loop: "\<And>st. rev_inv disk cx cy rad col [] (nat (fst sz)) (nat (snd sz)) st \<Longrightarrow>
            \<exists>st'. loop [0..<nat n] st = Inr st' \<and>
              rev_inv disk cx cy rad col [0..<nat n] (nat (fst sz)) (nat (snd sz)) st'"
    and pos: "0 \<le> fst sz" "0 \<le> snd sz"
  shows "\<exists>chart. composite_reverse_with loop sz bg n = Inr chart \<and>
           has_shape (nat (fst sz)) (nat (snd sz)) 3 chart \<and>
           (\<forall>y<nat (fst sz). \<forall>x<nat (snd sz).
              chart ! y ! x = px3 (spec_color disk True bg cx cy rad col (nat n) (x, y)))"
proof -
  let ?h = "nat (fst sz)" and ?w = "nat (snd sz)"
  let ?st0 = "(replicate ?h (replicate ?w [0, 0, 0]), replicate ?h (replicate ?w [0, 0, 0]),
      replicate ?h (replicate ?w [1::real]))"
  from loop [OF rev_inv_init] obtain chart' buffer' m'
    where run: "loop [0..<nat n] ?st0 = Inr (chart', buffer', m')"
      and inv: "rev_inv disk cx cy rad col [0..<nat n] ?h ?w (chart', buffer', m')"
    by (metis prod_cases3)
  let ?ones = "replicate ?h (replicate ?w [1, 1, 1::real])"
  let ?bg = "np_mul_mask (np_multiply_color bg ?ones) m'"
  let ?out = "np_add chart' ?bg"
  from inv have sc: "has_shape ?h ?w 3 chart'" and sm: "has_shape ?h ?w 1 m'"
    by (simp_all add: rev_inv_def)
  have so: "has_shape ?h ?w 3 ?ones" by (simp add: has_shape_iff)
  have sbc: "has_shape ?h ?w 3 (np_multiply_color bg ?ones)"
    using so by (rule has_shape_np_multiply_color)
  have sbg: "has_shape ?h ?w 3 ?bg" using sbc sm by (rule has_shape_np_mul_mask)
  have sout: "has_shape ?h ?w 3 ?out" using sc sbg by (rule has_shape_np_add)
  have eq: "composite_reverse_with loop sz bg n = Inr ?out"
    using pos run
    by (simp add: composite_reverse_with_def np_zeros_def np_ones_def np_full_def
        numeral_3_eq_3)
  have "?out ! y ! x = px3 (spec_color disk True bg cx cy rad col (nat n) (x, y))"
    if y: "y < ?h" and x: "x < ?w" for y x
  proof -
    have bgc: "np_multiply_color bg ?ones ! y ! x = px3 bg"
      using y x by (cases bg) (simp add: nth_np_multiply_color [OF so] px3_def)
    have out: "?out ! y ! x = map2 (+) (chart' ! y ! x) (map (\<lambda>v. v * hd (m' ! y ! x)) (px3 bg))"
      using y x by (simp add: nth_np_add [OF sc sbg] nth_np_mul_mask [OF sbc sm] bgc)
    show ?thesis
    proof (cases "find (covers disk cx cy rad (x, y)) [0..<nat n]")
      case None
      with rev_inv_at [OF inv y x] have "chart' ! y ! x = [0, 0, 0]" "m' ! y ! x = [1]"
        by simp_all
      then show ?thesis using None
        by (simp add: out spec_color_def first_covering_def px3_plus)
    next
      case (Some j)
      with rev_inv_at [OF inv y x] have "chart' ! y ! x = px3 (col ! j)" "m' ! y ! x = [0]"
        by simp_all
      then show ?thesis using Some
        by (simp add: out spec_color_def first_covering_def map2_add_zero)
    qed
  qed
  with eq sout show ?thesis by blast
qed

lemma forward_loop_pointwise:
  assumes "has_shape h w 3 chart" and "list_all (in_range cx cy rad col) is"
  shows "\<exists>chart'. forward_loop disk cx cy rad col is chart = Inr chart' \<and>
           has_shape h w 3 chart' \<and>
           (\<forall>y<h. \<forall>x<w. chart' ! y ! x =
              (case find (covers disk cx cy rad (x, y)) (rev is) of
                 None \<Rightarrow> chart ! y ! x | Some j \<Rightarrow> px3 (col ! j)))"
  using assms
proof (induction "is" arbitrary: chart)
  case Nil
  then show ?case by simp
next
  case (Cons i "is")
  let ?c1 = "cv2_circle disk chart (cx ! i, cy ! i) (rad ! i) (px3 (col ! i))"
  have s1: "has_shape h w 3 ?c1" using Cons.prems(1) by (simp add: has_shape_cv2_circle)
  have rng: "i < length cx \<and> i < length cy \<and> i < length rad \<and> i < length col"
    using Cons.prems(2) by (simp add: in_range_def)
  from Cons.IH [OF s1] Cons.prems(2) obtain chart'
    where run: "forward_loop disk cx cy rad col is ?c1 = Inr chart'"
      and sh: "has_shape h w 3 chart'"
      and pt: "\<forall>y<h. \<forall>x<w. chart' ! y ! x =
              (case find (covers disk cx cy rad (x, y)) (rev is) of
                 None \<Rightarrow> ?c1 ! y ! x | Some j \<Rightarrow> px3 (col ! j))"
    by auto
  have "chart' ! y ! x =
          (case find (covers disk cx cy rad (x, y)) (rev (i # is)) of
             None \<Rightarrow> chart ! y ! x | Some j \<Rightarrow> px3 (col ! j))"
    if y: "y < h" and x: "x < w" for y x
    using pt y x nth_cv2_circle [OF Cons.prems(1) y x, of disk "(cx ! i, cy ! i)" "rad ! i" "px3 (col ! i)"]
    by (simp add: find_snoc covers_def split: option.splits)
  with run sh rng show ?case by simp
qed

lemma composite_forward_pointwise:
  assumes rng: "list_all (in_range cx cy rad col) [0..<nat n]"
    and pos: "0 \<le> fst sz" "0 \<le> snd sz"
  shows "\<exists>chart. composite_forward disk sz bg cx cy rad col n = Inr chart \<and>
           has_shape (nat (fst sz)) (nat (snd sz)) 3 chart \<and>
           (\<forall>y<nat (fst sz). \<forall>x<nat (snd sz).
              chart ! y ! x = px3 (spec_color disk False bg cx cy rad col (nat n) (x, y)))"
proof -
  let ?h = "nat (fst sz)" and ?w = "nat (snd sz)"
  let ?ones = "replicate ?h (replicate ?w [1, 1, 1::real])"
  let ?c0 = "np_multiply_color bg ?ones"
  have so: "has_shape ?h ?w 3 ?ones" by (simp add: has_shape_iff)
  have s0: "has_shape ?h ?w 3 ?c0" using so by (rule has_shape_np_multiply_color)
  have bgc: "?c0 ! y ! x = px3 bg" if "y < ?h" "x < ?w" for y x
    using that by (cases bg) (simp add: nth_np_multiply_color [OF so] px3_def)
  have eq: "composite_forward disk sz bg cx cy rad col n =
              forward_loop disk cx cy rad col [0..<nat n] ?c0"
    using pos by (simp add: composite_forward_def np_ones_def np_full_def numeral_3_eq_3)
  from forward_loop_pointwise [OF s0 rng, of disk] obtain chart
    where run: "forward_loop disk cx cy rad col [0..<nat n] ?c0 = Inr chart"
      and sh: "has_shape ?h ?w 3 chart"
      and pt: "\<forall>y<?h. \<forall>x<?w. chart ! y ! x =
              (case find (covers disk cx cy rad (x, y)) (rev [0..<nat n]) of
                 None \<Rightarrow> ?c0 ! y ! x | Some j \<Rightarrow> px3 (col ! j))"
    by blast
  have "chart ! y ! x = px3 (spec_color disk False bg cx cy rad col (nat n) (x, y))"
    if y: "y < ?h" and x: "x < ?w" for y x
    using pt y x bgc [OF y x]
    by (simp add: spec_color_def last_covering_def split: option.splits)
  with eq run sh show ?thesis by auto
qed

lemma find_upt_less: "find P [0..<n] = Some i \<Longrightarrow> i < n"
  by (auto simp: find_Some_iff)

lemma find_rev_upt_less: "find P (rev [0..<n]) = Some i \<Longrightarrow> i < n"
  by (auto simp: find_Some_iff rev_nth)

lemma unit_rgb_spec_color:
  assumes "unit_rgb bg" and "list_all unit_rgb (take n col)" and "n \<le> length col"
  shows "unit_rgb (spec_color disk is_reverse bg cx cy rad col n xy)"
proof -
  have "unit_rgb (col ! i)" if "i < n" for i
    using assms(2,3) that by (simp add: list_all_length)
  then show ?thesis
    using assms(1)
    by (auto simp: spec_color_def first_covering_def last_covering_def
        split: option.splits dest: find_upt_less find_rev_upt_less)
qed

lemma clip_unit_rgb: "unit_rgb c \<Longrightarrow> map (\<lambda>v. min 1 (max 0 v)) (px3 c) = px3 c"
  by (cases c) (simp add: unit_rgb_def px3_def min_def max_def)

lemma finalize_pointwise:
  assumes "has_shape h w 3 chart" "y < h" "x < w" "chart ! y ! x = px3 c" "unit_rgb c"
  shows "finalize is_colored chart ! y ! x = channels is_colored c"
proof -
  have cl: "np_clip chart ! y ! x = px3 c"
    using assms by (simp add: nth_np_clip clip_unit_rgb)
  have sh: "has_shape h w 3 (np_clip chart)" using assms(1) by (rule has_shape_np_clip)
  show ?thesis
    using cl assms(2,3)
    by (cases c) (simp add: finalize_def channels_def nth_first_channel [OF sh] px3_def)
qed

section \<open>Compositing\<close>

text \<open>
  C1. On arrays that hold the \<open>n\<close> circles, with colours and background in \<open>[0, 1]\<close>,
  lines 71 to 93 return a buffer, and each of its pixels has the colour of the first circle in
  list order whose footprint covers it in reverse mode, of the last one in forward mode, and
  the background colour when no circle covers it (its first channel alone in gray mode).
\<close>

theorem occlusion_order:
  assumes len: "nat n \<le> length cx" "nat n \<le> length cy" "nat n \<le> length rad"
      "nat n \<le> length col"
    and unit: "unit_rgb bg" "list_all unit_rgb (take (nat n) col)"
    and y: "y < nat (fst sz)" and x: "x < nat (snd sz)"
  shows "\<exists>img. render disk sz bg is_colored is_reverse cx cy rad col n = Inr img \<and>
           img ! y ! x =
             channels is_colored (spec_color disk is_reverse bg cx cy rad col (nat n) (x, y))"
proof -
  have pos: "0 \<le> fst sz" "0 \<le> snd sz" using y x by simp_all
  have rng: "list_all (in_range cx cy rad col) [0..<nat n]" using len by (rule in_range_upt)
  have "\<exists>chart. (if is_reverse then composite_reverse disk sz bg cx cy rad col n
                  else composite_forward disk sz bg cx cy rad col n) = Inr chart \<and>
           has_shape (nat (fst sz)) (nat (snd sz)) 3 chart \<and>
           (\<forall>y<nat (fst sz). \<forall>x<nat (snd sz).
              chart ! y ! x = px3 (spec_color disk is_reverse bg cx cy rad col (nat n) (x, y)))"
  proof (cases is_reverse)
    case True
    have "\<exists>st'. reverse_loop disk cx cy rad col [0..<nat n] st = Inr st' \<and>
            rev_inv disk cx cy rad col [0..<nat n] (nat (fst sz)) (nat (snd sz)) st'"
      if "rev_inv disk cx cy rad col [] (nat (fst sz)) (nat (snd sz)) st" for st
      using reverse_loop_inv [OF that rng] by simp
    from composite_reverse_with_pointwise
      [where loop = "reverse_loop disk cx cy rad col" and bg = bg, OF this pos]
    show ?thesis using True by (simp add: composite_reverse_def)
  next
    case False
    from composite_forward_pointwise [OF rng pos, of disk bg]
    show ?thesis using False by simp
  qed
  then obtain chart
    where run: "(if is_reverse then composite_reverse disk sz bg cx cy rad col n
                  else composite_forward disk sz bg cx cy rad col n) = Inr chart"
      and sh: "has_shape (nat (fst sz)) (nat (snd sz)) 3 chart"
      and pt: "chart ! y ! x = px3 (spec_color disk is_reverse bg cx cy rad col (nat n) (x, y))"
    using y x by blast
  have u: "unit_rgb (spec_color disk is_reverse bg cx cy rad col (nat n) (x, y))"
    using unit len(4) by (rule unit_rgb_spec_color)
  have "render disk sz bg is_colored is_reverse cx cy rad col n = Inr (finalize is_colored chart)"
    using run by (simp add: render_def)
  moreover note finalize_pointwise [OF sh y x pt u, of is_colored]
  ultimately show ?thesis by simp
qed

theorem occlusion_order_witness:
  "(\<exists>img. render spec_disk (2, 2) (1 / 2, 1 / 2, 1 / 2) True True
            [0, 1] [0, 1] [1, 1] [(1, 0, 0), (0, 1, 0)] 2 = Inr img \<and> img ! 0 ! 1 = [1, 0, 0]) \<and>
   (\<exists>img. render spec_disk (2, 2) (1 / 2, 1 / 2, 1 / 2) False False
            [0, 1] [0, 1] [1, 1] [(1, 0, 0), (0, 1, 0)] 2 = Inr img \<and> img ! 0 ! 1 = [0])"
proof -
  have u: "unit_rgb (1 / 2, 1 / 2, 1 / 2)"
    "list_all unit_rgb (take (nat 2) [(1, 0, 0), (0, 1, 0)])"
    by (simp_all add: unit_rgb_def px3_def)
  have up: "[0..<2] = [0, Suc 0]" by (simp add: upt_rec)
  have c1: "spec_color spec_disk True (1 / 2, 1 / 2, 1 / 2) [0, 1] [0, 1] [1, 1]
              [(1, 0, 0), (0, 1, 0)] 2 (Suc 0, 0) = (1, 0, 0)"
    by (simp add: spec_color_def first_covering_def covers_def spec_disk_def up)
  have c2: "spec_color spec_disk False (1 / 2, 1 / 2, 1 / 2) [0, 1] [0, 1] [1, 1]
              [(1, 0, 0), (0, 1, 0)] 2 (Suc 0, 0) = (0, 1, 0)"
    by (simp add: spec_color_def last_covering_def covers_def spec_disk_def up)
  from occlusion_order [of 2 "[0, 1]" "[0, 1]" "[1, 1]" "[(1, 0, 0), (0, 1, 0)]"
      "(1 / 2, 1 / 2, 1 / 2)" 0 "(2, 2)" 1 spec_disk True True, OF _ _ _ _ u]
  have a: "\<exists>img. render spec_disk (2, 2) (1 / 2, 1 / 2, 1 / 2) True True
            [0, 1] [0, 1] [1, 1] [(1, 0, 0), (0, 1, 0)] 2 = Inr img \<and> img ! 0 ! 1 = [1, 0, 0]"
    by (simp add: c1 channels_def px3_def)
  from occlusion_order [of 2 "[0, 1]" "[0, 1]" "[1, 1]" "[(1, 0, 0), (0, 1, 0)]"
      "(1 / 2, 1 / 2, 1 / 2)" 0 "(2, 2)" 1 spec_disk False False, OF _ _ _ _ u]
  have b: "\<exists>img. render spec_disk (2, 2) (1 / 2, 1 / 2, 1 / 2) False False
            [0, 1] [0, 1] [1, 1] [(1, 0, 0), (0, 1, 0)] 2 = Inr img \<and> img ! 0 ! 1 = [0]"
    by (simp add: c2 channels_def px3_def)
  from a b show ?thesis by blast
qed

text \<open>
  C4. On arrays that hold the \<open>n\<close> circles, the canvas of reverse mode (lines 72 to 83) is
  the same with the early exit of lines 80 and 81 and with the loop run over all \<open>n\<close>
  circles.
\<close>

theorem early_exit_equivalence:
  assumes len: "nat n \<le> length cx" "nat n \<le> length cy" "nat n \<le> length rad"
      "nat n \<le> length col"
  shows "composite_reverse disk sz bg cx cy rad col n =
         composite_reverse_no_exit disk sz bg cx cy rad col n"
proof (cases "0 \<le> fst sz \<and> 0 \<le> snd sz")
  case True
  then have pos: "0 \<le> fst sz" "0 \<le> snd sz" by simp_all
  let ?h = "nat (fst sz)" and ?w = "nat (snd sz)"
  have rng: "list_all (in_range cx cy rad col) [0..<nat n]" using len by (rule in_range_upt)
  have l1: "\<exists>st'. reverse_loop disk cx cy rad col [0..<nat n] st = Inr st' \<and>
            rev_inv disk cx cy rad col [0..<nat n] ?h ?w st'"
    if "rev_inv disk cx cy rad col [] ?h ?w st" for st
    using reverse_loop_inv [OF that rng] by simp
  have l2: "\<exists>st'. reverse_loop_no_exit disk cx cy rad col [0..<nat n] st = Inr st' \<and>
            rev_inv disk cx cy rad col [0..<nat n] ?h ?w st'"
    if "rev_inv disk cx cy rad col [] ?h ?w st" for st
    using reverse_loop_no_exit_inv [OF that rng] by simp
  from composite_reverse_with_pointwise
    [where loop = "reverse_loop disk cx cy rad col" and bg = bg, OF l1 pos]
  obtain a where a: "composite_reverse disk sz bg cx cy rad col n = Inr a"
    and sa: "has_shape ?h ?w 3 a"
    and pa: "\<forall>y<?h. \<forall>x<?w. a ! y ! x = px3 (spec_color disk True bg cx cy rad col (nat n) (x, y))"
    unfolding composite_reverse_def by blast
  from composite_reverse_with_pointwise
    [where loop = "reverse_loop_no_exit disk cx cy rad col" and bg = bg, OF l2 pos]
  obtain b where b: "composite_reverse_no_exit disk sz bg cx cy rad col n = Inr b"
    and sb: "has_shape ?h ?w 3 b"
    and pb: "\<forall>y<?h. \<forall>x<?w. b ! y ! x = px3 (spec_color disk True bg cx cy rad col (nat n) (x, y))"
    unfolding composite_reverse_no_exit_def by blast
  have "a = b" using sa sb pa pb by (intro image_eqI [of ?h ?w 3]) simp_all
  with a b show ?thesis by simp
next
  case False
  then show ?thesis
    by (auto simp: composite_reverse_def composite_reverse_no_exit_def
        composite_reverse_with_def np_zeros_def np_full_def)
qed

theorem early_exit_equivalence_witness:
  "composite_reverse spec_disk (1, 1) (1 / 2, 1 / 2, 1 / 2) [0, 0] [0, 0] [1, 1]
     [(1, 0, 0), (0, 1, 0)] 2 =
   composite_reverse_no_exit spec_disk (1, 1) (1 / 2, 1 / 2, 1 / 2) [0, 0] [0, 0] [1, 1]
     [(1, 0, 0), (0, 1, 0)] 2 \<and>
   composite_reverse spec_disk (1, 1) (1 / 2, 1 / 2, 1 / 2) [0, 0] [0, 0] [1, 1]
     [(1, 0, 0), (0, 1, 0)] 2 = Inr [[[1, 0, 0]]]"
proof -
  have up: "[0..<2] = [0, Suc 0]" by (simp add: upt_rec)
  have v: "composite_reverse spec_disk (1, 1) (1 / 2, 1 / 2, 1 / 2) [0, 0] [0, 0] [1, 1]
     [(1, 0, 0), (0, 1, 0)] 2 = Inr [[[1, 0, 0]]]"
    by code_simp
  from early_exit_equivalence [of 2 "[0, 0]" "[0, 0]" "[1, 1]" "[(1, 0, 0), (0, 1, 0)]"
      spec_disk "(1, 1)" "(1 / 2, 1 / 2, 1 / 2)"] v
  show ?thesis by simp
qed

section \<open>The returned buffer\<close>

lemma unit_image_np_clip: "unit_image (np_clip a)"
  by (simp add: unit_image_def np_clip_def list_all_iff)

lemma unit_image_first_channel:
  assumes "has_shape h w 3 a" "unit_image a"
  shows "unit_image (first_channel a)"
proof -
  have "0 \<le> px ! 0 \<and> px ! 0 \<le> 1" if "row \<in> set a" "px \<in> set row" for row px
  proof -
    have "length px = 3" using assms(1) that by (auto simp: has_shape_def list_all_iff)
    then have "px ! 0 \<in> set px" by simp
    then show ?thesis using assms(2) that by (auto simp: unit_image_def list_all_iff)
  qed
  then show ?thesis by (simp add: unit_image_def first_channel_def list_all_iff)
qed

lemma finalize_shape:
  assumes "has_shape h w 3 chart"
  shows "has_shape h w (if is_colored then 3 else 1) (finalize is_colored chart)"
    and "unit_image (finalize is_colored chart)"
proof -
  have cl: "has_shape h w 3 (np_clip chart)" using assms by (rule has_shape_np_clip)
  show "has_shape h w (if is_colored then 3 else 1) (finalize is_colored chart)"
    using cl has_shape_first_channel [OF cl] by (simp add: finalize_def Let_def)
  show "unit_image (finalize is_colored chart)"
    using unit_image_first_channel [OF cl unit_image_np_clip]
    by (simp add: finalize_def Let_def unit_image_np_clip)
qed

lemma reverse_loop_shape:
  assumes "reverse_loop disk cx cy rad col is (c, b, m) = Inr (c', b', m')"
    and "has_shape h w 3 c" "has_shape h w 3 b" "has_shape h w 1 m"
  shows "has_shape h w 3 c' \<and> has_shape h w 1 m'"
  using assms
proof (induction "is" arbitrary: c b m)
  case Nil
  then show ?case by simp
next
  case (Cons i "is")
  let ?b1 = "cv2_circle disk b (cx ! i, cy ! i) (rad ! i) (px3 (col ! i))"
  let ?m1 = "cv2_circle disk m (cx ! i, cy ! i) (rad ! i) [0]"
  let ?c1 = "np_add c (np_mul_mask ?b1 m)"
  have sb1: "has_shape h w 3 ?b1" using Cons.prems(3) by (simp add: has_shape_cv2_circle)
  have sm1: "has_shape h w 1 ?m1" using Cons.prems(4) by (simp add: has_shape_cv2_circle)
  have sc1: "has_shape h w 3 ?c1"
    using Cons.prems(2) has_shape_np_mul_mask [OF sb1 Cons.prems(4)] by (rule has_shape_np_add)
  show ?case
  proof (cases "np_any ?m1")
    case True
    with Cons.prems(1) have "reverse_loop disk cx cy rad col is (?c1, ?b1, ?m1) = Inr (c', b', m')"
      by (simp add: Let_def split: if_splits)
    from Cons.IH [OF this sc1 sb1 sm1] show ?thesis .
  next
    case False
    with Cons.prems(1) have "c' = ?c1" "m' = ?m1"
      by (auto simp: Let_def split: if_splits)
    with sc1 sm1 show ?thesis by simp
  qed
qed

lemma forward_loop_shape:
  assumes "forward_loop disk cx cy rad col is c = Inr c'" and "has_shape h w 3 c"
  shows "has_shape h w 3 c'"
  using assms
proof (induction "is" arbitrary: c)
  case Nil
  then show ?case by simp
next
  case (Cons i "is")
  let ?c1 = "cv2_circle disk c (cx ! i, cy ! i) (rad ! i) (px3 (col ! i))"
  have s1: "has_shape h w 3 ?c1" using Cons.prems(2) by (simp add: has_shape_cv2_circle)
  from Cons.prems(1) have "forward_loop disk cx cy rad col is ?c1 = Inr c'"
    by (simp split: if_splits)
  from Cons.IH [OF this s1] show ?case .
qed

lemma composite_reverse_shape:
  assumes "composite_reverse disk sz bg cx cy rad col n = Inr chart"
  shows "0 \<le> fst sz \<and> 0 \<le> snd sz \<and> has_shape (nat (fst sz)) (nat (snd sz)) 3 chart"
proof -
  let ?h = "nat (fst sz)" and ?w = "nat (snd sz)"
  from assms have pos: "0 \<le> fst sz" "0 \<le> snd sz"
    by (auto simp: composite_reverse_def composite_reverse_with_def np_zeros_def np_full_def
        split: if_splits)
  let ?z = "replicate ?h (replicate ?w [0, 0, 0::real])"
  let ?o = "replicate ?h (replicate ?w [1::real])"
  let ?ones = "replicate ?h (replicate ?w [1, 1, 1::real])"
  from assms pos obtain c' b' m'
    where run: "reverse_loop disk cx cy rad col [0..<nat n] (?z, ?z, ?o) = Inr (c', b', m')"
      and out: "chart = np_add c' (np_mul_mask (np_multiply_color bg ?ones) m')"
    by (auto simp: composite_reverse_def composite_reverse_with_def np_zeros_def np_ones_def
        np_full_def numeral_3_eq_3 split: sum.splits)
  have "has_shape ?h ?w 3 ?z" "has_shape ?h ?w 1 ?o" by (simp_all add: has_shape_iff)
  with reverse_loop_shape [OF run] have sc: "has_shape ?h ?w 3 c'" and sm: "has_shape ?h ?w 1 m'"
    by simp_all
  have "has_shape ?h ?w 3 ?ones" by (simp add: has_shape_iff)
  then have "has_shape ?h ?w 3 (np_multiply_color bg ?ones)"
    by (rule has_shape_np_multiply_color)
  then have "has_shape ?h ?w 3 (np_mul_mask (np_multiply_color bg ?ones) m')"
    using sm by (rule has_shape_np_mul_mask)
  with sc have "has_shape ?h ?w 3 chart" unfolding out by (rule has_shape_np_add)
  with pos show ?thesis by simp
qed

lemma composite_forward_shape:
  assumes "composite_forward disk sz bg cx cy rad col n = Inr chart"
  shows "0 \<le> fst sz \<and> 0 \<le> snd sz \<and> has_shape (nat (fst sz)) (nat (snd sz)) 3 chart"
proof -
  let ?h = "nat (fst sz)" and ?w = "nat (snd sz)"
  from assms have pos: "0 \<le> fst sz" "0 \<le> snd sz"
    by (auto simp: composite_forward_def np_ones_def np_full_def split: if_splits)
  let ?ones = "replicate ?h (replicate ?w [1, 1, 1::real])"
  from assms pos
  have run: "forward_loop disk cx cy rad col [0..<nat n] (np_multiply_color bg ?ones) = Inr chart"
    by (simp add: composite_forward_def np_ones_def np_full_def numeral_3_eq_3)
  have "has_shape ?h ?w 3 ?ones" by (simp add: has_shape_iff)
  then have "has_shape ?h ?w 3 (np_multiply_color bg ?ones)"
    by (rule has_shape_np_multiply_color)
  with forward_loop_shape [OF run] pos show ?thesis by simp
qed

lemma render_shape:
  assumes "render disk sz bg is_colored is_reverse cx cy rad col n = Inr img"
  shows "0 \<le> fst sz \<and> 0 \<le> snd sz \<and>
         has_shape (nat (fst sz)) (nat (snd sz)) (if is_colored then 3 else 1) img \<and>
         unit_image img"
proof -
  from assms obtain chart
    where c: "(if is_reverse then composite_reverse disk sz bg cx cy rad col n
            else composite_forward disk sz bg cx cy rad col n) = Inr chart"
      and img: "img = finalize is_colored chart"
    by (auto simp: render_def split: sum.splits)
  from c have "0 \<le> fst sz \<and> 0 \<le> snd sz \<and> has_shape (nat (fst sz)) (nat (snd sz)) 3 chart"
    by (auto split: if_splits dest: composite_reverse_shape composite_forward_shape)
  then show ?thesis unfolding img using finalize_shape by blast
qed

lemma chart_with_rng_Inr:
  assumes "chart_with_rng np sampler disk p g = (Inr img, g')"
  shows "\<exists>cx cy rad g1 col.
           sample_geometry np p g = (Inr (cx, cy, rad), g1) \<and>
           sample_color np sampler p g1 = (Inr col, g') \<and>
           render disk (size_hw p) (background_color p) (colored p) (reverse p)
             cx cy rad col (effective_count p) = Inr img"
  using assms
  by (auto simp: chart_with_rng_def split: prod.splits sum.splits)

lemma dead_leaves_chart_Inr:
  assumes "dead_leaves_chart np sampler disk entropy p = Inr img"
  shows "\<exists>g g'. default_rng np (case seed p of None \<Rightarrow> entropy | Some s \<Rightarrow> s) = Inr g \<and>
           chart_with_rng np sampler disk p g = (Inr img, g')"
  using assms
  by (auto simp: dead_leaves_chart_def split: sum.splits) (metis fst_conv surj_pair)

text \<open>
  C8. When the entry point returns a buffer, the buffer has \<open>height\<close> rows of \<open>width\<close>
  pixels, each of three channels when \<open>colored\<close> and of one channel otherwise, and every
  channel value is in \<open>[0, 1]\<close>.
\<close>

theorem returned_buffer:
  assumes "dead_leaves_chart np sampler disk entropy p = Inr img"
  shows "int (length img) = fst (size_hw p) \<and>
         list_all (\<lambda>row. int (length row) = snd (size_hw p) \<and>
           list_all (\<lambda>px. length px = (if colored p then 3 else 1) \<and>
             list_all (\<lambda>v. 0 \<le> v \<and> v \<le> 1) px) row) img"
proof -
  from dead_leaves_chart_Inr [OF assms] obtain g g'
    where "chart_with_rng np sampler disk p g = (Inr img, g')"
    by blast
  from chart_with_rng_Inr [OF this] obtain cx cy rad col
    where "render disk (size_hw p) (background_color p) (colored p) (reverse p)
             cx cy rad col (effective_count p) = Inr img"
    by blast
  from render_shape [OF this]
  show ?thesis
    by (auto simp: has_shape_def unit_image_def list_all_iff)
qed

section \<open>Runs on the counting generator\<close>

lemma np_round_of_int [simp]: "np_round (of_int k) = k"
  by (simp add: np_round_def)

lemma np_round_numeral [simp]: "np_round (numeral k) = numeral k"
  using np_round_of_int [of "numeral k"] by simp

lemma traverse_replicate: "f x = Inr y \<Longrightarrow> traverse f (replicate k x) = Inr (replicate k y)"
  by (induction k) simp_all

lemma radius_of_default: "radius_of (- (1 / 2)) (2000 powr - 2) = Inr 2000"
  by (simp add: radius_of_def np_power_def powr_powr)

lemma traverse_radius_default:
  "traverse (radius_of (- (1 / 2))) (replicate k (2000 powr - 2)) = Inr (replicate k 2000)"
  using radius_of_default by (rule traverse_replicate)

lemma counting_geometry:
  assumes "radius_min p < 0" "radius_max p < 0" "radius_alpha p = 3"
    and "0 \<le> effective_count p"
    and "0 < fst (size_hw p)" "0 < snd (size_hw p)"
  shows "sample_geometry counting_rng p g =
           (Inr (replicate (nat (effective_count p)) 0, replicate (nat (effective_count p)) 0,
                 replicate (nat (effective_count p)) 2000), Suc (Suc (Suc g)))"
  using assms
  by (simp add: sample_geometry_def sample_centers_def sample_radius_def counting_rng_def
      effective_radius_min_def effective_radius_max_def py_pow_def py_div_def
      traverse_radius_default)

lemma counting_color:
  assumes "0 \<le> effective_count p"
  shows "sample_color counting_rng red_sampler p g =
           (Inr (replicate (nat (effective_count p))
                   (if colored p then (1, 0, 0) else (1 / 4, 1 / 4, 1 / 4))), Suc g)"
  using assms
  by (simp add: sample_color_def counting_rng_def red_sampler_def)

lemma counting_chart:
  assumes "radius_min p < 0" "radius_max p < 0" "radius_alpha p = 3"
    and "0 \<le> effective_count p"
    and "0 < fst (size_hw p)" "0 < snd (size_hw p)"
  shows "chart_with_rng counting_rng red_sampler disk p g =
           (render disk (size_hw p) (background_color p) (colored p) (reverse p)
              (replicate (nat (effective_count p)) 0) (replicate (nat (effective_count p)) 0)
              (replicate (nat (effective_count p)) 2000)
              (replicate (nat (effective_count p))
                 (if colored p then (1, 0, 0) else (1 / 4, 1 / 4, 1 / 4)))
              (effective_count p), Suc (Suc (Suc (Suc g))))"
  by (simp add: chart_with_rng_def counting_geometry [OF assms] counting_color [OF assms(4)])

lemma small_render:
  "render spec_disk (1, 2) (1 / 2, 1 / 2, 1 / 2) False True [0] [0] [2000]
     [(1 / 4, 1 / 4, 1 / 4)] 1 = Inr [[[1 / 4], [1 / 4]]]"
  by code_simp

lemma small_chart:
  "dead_leaves_chart counting_rng red_sampler spec_disk entropy small_params =
     Inr [[[1 / 4], [1 / 4]]]"
proof -
  have "chart_with_rng counting_rng red_sampler spec_disk small_params 0 =
          (Inr [[[1 / 4], [1 / 4]]], 4)"
    by (subst counting_chart) (simp_all add: small_params_def effective_count_def small_render)
  then show ?thesis
    by (simp add: dead_leaves_chart_def small_params_def counting_rng_def)
qed

theorem returned_buffer_witness:
  "dead_leaves_chart counting_rng red_sampler spec_disk 0 small_params =
     Inr [[[1 / 4], [1 / 4]]] \<and>
   int (length [[[1 / 4 :: real], [1 / 4]]]) = fst (size_hw small_params) \<and>
   list_all (\<lambda>row. int (length row) = snd (size_hw small_params) \<and>
     list_all (\<lambda>px. length px = (if colored small_params then 3 else 1) \<and>
       list_all (\<lambda>v. 0 \<le> v \<and> v \<le> 1) px) row) [[[1 / 4 :: real], [1 / 4]]]"
  using returned_buffer [OF small_chart [of 0]] small_chart [of 0] by simp

section \<open>The stream of the generator\<close>

lemma geometry_ignores_colored:
  "sample_geometry np (p\<lparr>colored := b\<rparr>) g = sample_geometry np p g"
proof -
  have same: "effective_count (p\<lparr>colored := b\<rparr>) = effective_count p"
    "effective_radius_min (p\<lparr>colored := b\<rparr>) = effective_radius_min p"
    "effective_radius_max (p\<lparr>colored := b\<rparr>) = effective_radius_max p"
    "size_hw (p\<lparr>colored := b\<rparr>) = size_hw p"
    "radius_alpha (p\<lparr>colored := b\<rparr>) = radius_alpha p"
    by (simp_all add: effective_count_def effective_radius_min_def effective_radius_max_def)
  show ?thesis
    unfolding sample_geometry_def sample_centers_def sample_radius_def same by (rule refl)
qed

lemma sample_color_colored_Inr:
  assumes "colored p" "sample_color np sampler p g = (Inr col, g')"
  shows "\<exists>sub_seed. integers_scalar np g 0 (10 ^ 10) = Inr (sub_seed, g') \<and>
           sampler (effective_count p) sub_seed = Inr col"
  using assms by (auto simp: sample_color_def split: sum.splits)

text \<open>
  C3. With an integer seed the result of the entry point does not depend on the entropy of
  the operating system: two calls with the same seed and arguments return the same buffer.
  In colour mode a run that returns has drawn the seed of the colour sampler from the same
  generator, in the state that the draws of the centres and radii left.
\<close>

theorem fixed_seed_determinism:
  "dead_leaves_chart np sampler disk entropy1 (p\<lparr>seed := Some s\<rparr>) =
     dead_leaves_chart np sampler disk entropy2 (p\<lparr>seed := Some s\<rparr>) \<and>
   (colored p \<longrightarrow>
      (\<forall>g img g'. chart_with_rng np sampler disk p g = (Inr img, g') \<longrightarrow>
         (\<exists>cx cy rad g1 sub_seed col.
            sample_geometry np p g = (Inr (cx, cy, rad), g1) \<and>
            integers_scalar np g1 0 (10 ^ 10) = Inr (sub_seed, g') \<and>
            sampler (effective_count p) sub_seed = Inr col \<and>
            render disk (size_hw p) (background_color p) (colored p) (reverse p)
              cx cy rad col (effective_count p) = Inr img)))"
proof (intro conjI impI allI)
  show "dead_leaves_chart np sampler disk entropy1 (p\<lparr>seed := Some s\<rparr>) =
     dead_leaves_chart np sampler disk entropy2 (p\<lparr>seed := Some s\<rparr>)"
    by (simp add: dead_leaves_chart_def)
next
  fix g img g'
  assume c: "colored p" and run: "chart_with_rng np sampler disk p g = (Inr img, g')"
  from chart_with_rng_Inr [OF run] obtain cx cy rad g1 col
    where geo: "sample_geometry np p g = (Inr (cx, cy, rad), g1)"
      and col: "sample_color np sampler p g1 = (Inr col, g')"
      and ren: "render disk (size_hw p) (background_color p) (colored p) (reverse p)
             cx cy rad col (effective_count p) = Inr img"
    by blast
  from sample_color_colored_Inr [OF c col] geo ren
  show "\<exists>cx cy rad g1 sub_seed col.
            sample_geometry np p g = (Inr (cx, cy, rad), g1) \<and>
            integers_scalar np g1 0 (10 ^ 10) = Inr (sub_seed, g') \<and>
            sampler (effective_count p) sub_seed = Inr col \<and>
            render disk (size_hw p) (background_color p) (colored p) (reverse p)
              cx cy rad col (effective_count p) = Inr img"
    by blast
qed

lemma small_render_colored:
  "render spec_disk (1, 2) (1 / 2, 1 / 2, 1 / 2) True True [0] [0] [2000]
     [(1, 0, 0)] 1 = Inr [[[1, 0, 0], [1, 0, 0]]]"
  by code_simp

lemma small_chart_colored:
  "chart_with_rng counting_rng red_sampler spec_disk (small_params\<lparr>colored := True\<rparr>) 0 =
     (Inr [[[1, 0, 0], [1, 0, 0]]], 4)"
  by (subst counting_chart)
    (simp_all add: small_params_def effective_count_def small_render_colored)

theorem fixed_seed_determinism_witness:
  "dead_leaves_chart counting_rng red_sampler spec_disk 17 (small_params\<lparr>colored := True\<rparr>) =
     dead_leaves_chart counting_rng red_sampler spec_disk 42 (small_params\<lparr>colored := True\<rparr>) \<and>
   chart_with_rng counting_rng red_sampler spec_disk (small_params\<lparr>colored := True\<rparr>) 0 =
     (Inr [[[1, 0, 0], [1, 0, 0]]], 4) \<and>
   (\<exists>cx cy rad g1 sub_seed col.
      sample_geometry counting_rng (small_params\<lparr>colored := True\<rparr>) 0 =
        (Inr (cx, cy, rad), g1) \<and>
      integers_scalar counting_rng g1 0 (10 ^ 10) = Inr (sub_seed, 4) \<and>
      red_sampler (effective_count (small_params\<lparr>colored := True\<rparr>)) sub_seed = Inr col)"
proof -
  have s: "small_params\<lparr>colored := True\<rparr> = small_params\<lparr>colored := True, seed := Some 0\<rparr>"
    by (simp add: small_params_def)
  have c: "colored (small_params\<lparr>colored := True\<rparr>)" by simp
  from fixed_seed_determinism [where np = counting_rng and sampler = red_sampler
      and disk = spec_disk and ?entropy1.0 = 17 and ?entropy2.0 = 42 and s = 0
      and p = "small_params\<lparr>colored := True\<rparr>"]
  have a: "dead_leaves_chart counting_rng red_sampler spec_disk 17
             (small_params\<lparr>colored := True\<rparr>) =
           dead_leaves_chart counting_rng red_sampler spec_disk 42
             (small_params\<lparr>colored := True\<rparr>)"
    and b: "\<exists>cx cy rad g1 sub_seed col.
      sample_geometry counting_rng (small_params\<lparr>colored := True\<rparr>) 0 =
        (Inr (cx, cy, rad), g1) \<and>
      integers_scalar counting_rng g1 0 (10 ^ 10) = Inr (sub_seed, 4) \<and>
      red_sampler (effective_count (small_params\<lparr>colored := True\<rparr>)) sub_seed = Inr col"
    using s c small_chart_colored by (simp, blast)
  from a b small_chart_colored show ?thesis by blast
qed

section \<open>The radius sampler\<close>










section \<open>The exponent at \<open>radius_alpha = 1\<close>\<close>




section \<open>No circles\<close>






section \<open>The flag \<open>colored\<close>\<close>

lemma chart_with_rng_colored_field:
  "chart_with_rng np sampler disk (p\<lparr>colored := b\<rparr>) g =
     (case sample_geometry np p g of
        (Inl e, g1) \<Rightarrow> (Inl e, g1)
      | (Inr (cx, cy, rad), g1) \<Rightarrow>
          (case sample_color np sampler (p\<lparr>colored := b\<rparr>) g1 of
             (Inl e, g2) \<Rightarrow> (Inl e, g2)
           | (Inr col, g2) \<Rightarrow>
               (render disk (size_hw p) (background_color p) b (reverse p)
                  cx cy rad col (effective_count p), g2)))"
proof -
  have same: "effective_count (p\<lparr>colored := b\<rparr>) = effective_count p"
    "size_hw (p\<lparr>colored := b\<rparr>) = size_hw p"
    "background_color (p\<lparr>colored := b\<rparr>) = background_color p"
    "reverse (p\<lparr>colored := b\<rparr>) = reverse p"
    "colored (p\<lparr>colored := b\<rparr>) = b"
    by (simp_all add: effective_count_def)
  show ?thesis
    unfolding chart_with_rng_def same geometry_ignores_colored by (rule refl)
qed

lemma render_gray_is_first_channel:
  "render disk sz bg False is_reverse cx cy rad col n =
     (case render disk sz bg True is_reverse cx cy rad col n of
        Inl e \<Rightarrow> Inl e
      | Inr img \<Rightarrow> Inr (first_channel img))"
  by (simp add: render_def finalize_def Let_def split: sum.splits)

text \<open>
  C10. For both values of the \<open>colored\<close> flag the entry point seeds the generator in the
  same way and then draws the centres and radii from that first state, before any colour:
  the circles and the state they leave are \<open>sample_geometry np p g\<close>, which does not
  read the flag. The flag reaches only the colour draw, made from the state the geometry left,
  and the channel count: when both modes return, they have composited the same centres and
  radii, and the gray buffer is the first channel of the colour rendering of its circles.
\<close>

theorem geometry_drawn_before_colors:
  "(\<forall>b. dead_leaves_chart np sampler disk entropy (p\<lparr>colored := b\<rparr>) =
      (case default_rng np (case seed p of None \<Rightarrow> entropy | Some s \<Rightarrow> s) of
         Inl e \<Rightarrow> Inl e
       | Inr g0 \<Rightarrow> fst (chart_with_rng np sampler disk (p\<lparr>colored := b\<rparr>) g0))) \<and>
   (\<forall>b. chart_with_rng np sampler disk (p\<lparr>colored := b\<rparr>) g =
      (case sample_geometry np p g of
         (Inl e, g1) \<Rightarrow> (Inl e, g1)
       | (Inr (cx, cy, rad), g1) \<Rightarrow>
           (case sample_color np sampler (p\<lparr>colored := b\<rparr>) g1 of
              (Inl e, g2) \<Rightarrow> (Inl e, g2)
            | (Inr col, g2) \<Rightarrow>
                (render disk (size_hw p) (background_color p) b (reverse p)
                   cx cy rad col (effective_count p), g2)))) \<and>
   (\<forall>img_c g_c img_g g_g.
      chart_with_rng np sampler disk (p\<lparr>colored := True\<rparr>) g = (Inr img_c, g_c) \<longrightarrow>
      chart_with_rng np sampler disk (p\<lparr>colored := False\<rparr>) g = (Inr img_g, g_g) \<longrightarrow>
      (\<exists>cx cy rad g1 col_c col_g.
         sample_geometry np (p\<lparr>colored := True\<rparr>) g = (Inr (cx, cy, rad), g1) \<and>
         sample_geometry np (p\<lparr>colored := False\<rparr>) g = (Inr (cx, cy, rad), g1) \<and>
         sample_color np sampler (p\<lparr>colored := True\<rparr>) g1 = (Inr col_c, g_c) \<and>
         sample_color np sampler (p\<lparr>colored := False\<rparr>) g1 = (Inr col_g, g_g) \<and>
         render disk (size_hw p) (background_color p) True (reverse p)
           cx cy rad col_c (effective_count p) = Inr img_c \<and>
         (\<exists>img. render disk (size_hw p) (background_color p) True (reverse p)
                  cx cy rad col_g (effective_count p) = Inr img \<and>
                img_g = first_channel img)))"
proof (intro conjI allI impI)
  fix b
  show "dead_leaves_chart np sampler disk entropy (p\<lparr>colored := b\<rparr>) =
      (case default_rng np (case seed p of None \<Rightarrow> entropy | Some s \<Rightarrow> s) of
         Inl e \<Rightarrow> Inl e
       | Inr g0 \<Rightarrow> fst (chart_with_rng np sampler disk (p\<lparr>colored := b\<rparr>) g0))"
    by (simp add: dead_leaves_chart_def)
next
  fix b
  show "chart_with_rng np sampler disk (p\<lparr>colored := b\<rparr>) g =
      (case sample_geometry np p g of
         (Inl e, g1) \<Rightarrow> (Inl e, g1)
       | (Inr (cx, cy, rad), g1) \<Rightarrow>
           (case sample_color np sampler (p\<lparr>colored := b\<rparr>) g1 of
              (Inl e, g2) \<Rightarrow> (Inl e, g2)
            | (Inr col, g2) \<Rightarrow>
                (render disk (size_hw p) (background_color p) b (reverse p)
                   cx cy rad col (effective_count p), g2)))"
    by (rule chart_with_rng_colored_field)
next
  fix img_c g_c img_g g_g
  assume c: "chart_with_rng np sampler disk (p\<lparr>colored := True\<rparr>) g = (Inr img_c, g_c)"
    and m: "chart_with_rng np sampler disk (p\<lparr>colored := False\<rparr>) g = (Inr img_g, g_g)"
  from c obtain cx cy rad g1 col_c
    where geo: "sample_geometry np p g = (Inr (cx, cy, rad), g1)"
      and cc: "sample_color np sampler (p\<lparr>colored := True\<rparr>) g1 = (Inr col_c, g_c)"
      and rc: "render disk (size_hw p) (background_color p) True (reverse p)
           cx cy rad col_c (effective_count p) = Inr img_c"
    unfolding chart_with_rng_colored_field
    by (auto split: prod.splits sum.splits)
  from m geo obtain col_g
    where cg: "sample_color np sampler (p\<lparr>colored := False\<rparr>) g1 = (Inr col_g, g_g)"
      and rg: "render disk (size_hw p) (background_color p) False (reverse p)
           cx cy rad col_g (effective_count p) = Inr img_g"
    unfolding chart_with_rng_colored_field
    by (auto split: prod.splits sum.splits)
  from rg obtain img
    where "render disk (size_hw p) (background_color p) True (reverse p)
                  cx cy rad col_g (effective_count p) = Inr img"
      and "img_g = first_channel img"
    unfolding render_gray_is_first_channel [of disk _ _ "reverse p"]
    by (auto split: sum.splits)
  with geo cc cg rc
  show "\<exists>cx cy rad g1 col_c col_g.
         sample_geometry np (p\<lparr>colored := True\<rparr>) g = (Inr (cx, cy, rad), g1) \<and>
         sample_geometry np (p\<lparr>colored := False\<rparr>) g = (Inr (cx, cy, rad), g1) \<and>
         sample_color np sampler (p\<lparr>colored := True\<rparr>) g1 = (Inr col_c, g_c) \<and>
         sample_color np sampler (p\<lparr>colored := False\<rparr>) g1 = (Inr col_g, g_g) \<and>
         render disk (size_hw p) (background_color p) True (reverse p)
           cx cy rad col_c (effective_count p) = Inr img_c \<and>
         (\<exists>img. render disk (size_hw p) (background_color p) True (reverse p)
                  cx cy rad col_g (effective_count p) = Inr img \<and>
                img_g = first_channel img)"
    unfolding geometry_ignores_colored by blast
qed

theorem geometry_drawn_before_colors_witness:
  "chart_with_rng counting_rng red_sampler spec_disk (small_params\<lparr>colored := True\<rparr>) 0 =
     (Inr [[[1, 0, 0], [1, 0, 0]]], 4) \<and>
   chart_with_rng counting_rng red_sampler spec_disk (small_params\<lparr>colored := False\<rparr>) 0 =
     (Inr [[[1 / 4], [1 / 4]]], 4) \<and>
   (\<exists>cx cy rad g1.
      sample_geometry counting_rng (small_params\<lparr>colored := True\<rparr>) 0 =
        (Inr (cx, cy, rad), g1) \<and>
      sample_geometry counting_rng (small_params\<lparr>colored := False\<rparr>) 0 =
        (Inr (cx, cy, rad), g1))"
proof -
  have c: "chart_with_rng counting_rng red_sampler spec_disk (small_params\<lparr>colored := True\<rparr>) 0 =
     (Inr [[[1, 0, 0], [1, 0, 0]]], 4)"
    by (rule small_chart_colored)
  have m: "chart_with_rng counting_rng red_sampler spec_disk (small_params\<lparr>colored := False\<rparr>) 0 =
     (Inr [[[1 / 4], [1 / 4]]], 4)"
    by (subst counting_chart) (simp_all add: small_params_def effective_count_def small_render)
  from geometry_drawn_before_colors [where np = counting_rng and sampler = red_sampler
      and disk = spec_disk and p = small_params and g = 0] c m
  have "\<exists>cx cy rad g1.
      sample_geometry counting_rng (small_params\<lparr>colored := True\<rparr>) 0 =
        (Inr (cx, cy, rad), g1) \<and>
      sample_geometry counting_rng (small_params\<lparr>colored := False\<rparr>) 0 =
        (Inr (cx, cy, rad), g1)"
    by blast
  with c m show ?thesis by blast
qed

section \<open>Invalid arguments\<close>











section \<open>The radius formula\<close>


lemma traverse_map_Inr:
  "(\<And>x. x \<in> set xs \<Longrightarrow> f x = Inr (h x)) \<Longrightarrow> traverse f xs = Inr (map h xs)"
  by (induction xs) simp_all





section \<open>Rounding to binary64\<close>

lemma f64_zero [simp]: "f64 0 = 0"
  by (simp add: f64_def)


lemma f64_pos_eq:
  assumes "0 < x"
  shows "f64 x = of_int (np_round (x / 2 powr (of_int (max \<lfloor>log 2 x\<rfloor> (- 1022)) - 52))) *
           2 powr (of_int (max \<lfloor>log 2 x\<rfloor> (- 1022)) - 52)"
  using assms by (simp add: f64_def Let_def)


lemma f64_minus: "f64 (- x) = - f64 x"
  by (simp add: f64_def Let_def)


lemma pow2_powr: "(2 :: real) ^ n * 2 powr r = 2 powr (real n + r)"
  by (simp add: powr_add powr_realpow)





lemma f64_normal:
  assumes "2 powr of_int k \<le> x" "x < 2 powr (of_int k + 1)" "- 1022 \<le> k"
  shows "f64 x = of_int (np_round (x / 2 powr (of_int k - 52))) * 2 powr (of_int k - 52)"
proof -
  have "0 < (2 :: real) powr of_int k" by simp
  with assms(1) have x: "0 < x" by linarith
  have "\<lfloor>log 2 x\<rfloor> = k"
    using x assms(1,2) floor_log_eq_powr_iff [of x 2 k] by simp
  then show ?thesis using assms(3) by (simp add: f64_pos_eq [OF x])
qed

lemma f64_subnormal:
  assumes "0 < x" "x < 2 powr (- 1022)"
  shows "f64 x = of_int (np_round (x / 2 powr (- 1074))) * 2 powr (- 1074)"
proof -
  have "log 2 x < - 1022"
    using assms by (simp add: log_less_iff)
  then have "\<lfloor>log 2 x\<rfloor> < - 1022" by linarith
  then have "max \<lfloor>log 2 x\<rfloor> (- 1022) = - 1022" by simp
  then show ?thesis by (simp add: f64_pos_eq [OF assms(1)])
qed

lemma f64_one [simp]: "f64 1 = 1"
  using f64_normal [of 0 1] np_round_of_int [of "2 ^ 52"] by (simp add: powr_minus)

lemma f64_two [simp]: "f64 2 = 2"
  using f64_normal [of 1 2] np_round_of_int [of "2 ^ 52"] by (simp add: powr_minus)

lemma f64_half [simp]: "f64 (1 / 2) = 1 / 2"
  using f64_normal [of "- 1" "1 / 2"] np_round_of_int [of "2 ^ 52"]
  by (simp add: powr_minus)

lemma f64_minus_one [simp]: "f64 (- 1) = - 1"
  using f64_minus [of 1] by simp

lemma f64_minus_half [simp]: "f64 (- (1 / 2)) = - (1 / 2)"
  using f64_minus [of "1 / 2"] by simp



section \<open>The radius sampler in binary64\<close>













text \<open>
  C6, as the code has it. Lines 55 to 62 detect nothing. An overflow of
  \<open>radius_max ** (1 - alpha)\<close> is Python's own \<open>OverflowError\<close>, raised by \<open>**\<close> before
  the radii are drawn. Nothing else is reported: when the two powers return (an underflow
  to \<open>0.0\<close> included), the draw succeeds with variates that are not negative and the exponent
  \<open>e = -1 / (alpha - 1)\<close> is a finite number, the lines return integer radii, one for each
  variate, and a variate whose power is \<open>inf\<close>, as \<open>0.0\<close> with a negative exponent, gets
  the radius \<open>-2 ^ 63\<close>.
\<close>

theorem overflow_not_detected:
  "(0 < effective_radius_max p \<longrightarrow>
      \<not> f64_finite (f64 (effective_radius_max p powr f64 (1 - radius_alpha p))) \<longrightarrow>
      sample_radius_f64 np p g = (Inl OverflowError, g)) \<and>
   (\<forall>lo hi us g' e.
      py_pow_f64 (effective_radius_max p) (f64 (1 - radius_alpha p)) = Inr lo \<longrightarrow>
      py_pow_f64 (effective_radius_min p) (f64 (1 - radius_alpha p)) = Inr hi \<longrightarrow>
      uniform np g lo hi (effective_count p) = Inr (us, g') \<longrightarrow>
      list_all (\<lambda>u. 0 \<le> u) us \<longrightarrow>
      py_div_f64 (- 1) (f64 (radius_alpha p - 1)) = Inr e \<longrightarrow>
      sample_radius_f64 np p g = (Inr (map (\<lambda>u. astype_int (np_power_f64 u e)) us), g') \<and>
      (e < 0 \<longrightarrow> astype_int (np_power_f64 0 e) = - (2 ^ 63)))"
proof (intro conjI allI impI)
  assume "0 < effective_radius_max p"
    and "\<not> f64_finite (f64 (effective_radius_max p powr f64 (1 - radius_alpha p)))"
  then show "sample_radius_f64 np p g = (Inl OverflowError, g)"
    by (simp add: sample_radius_f64_def py_pow_f64_def Let_def)
next
  fix lo hi us g' e
  assume lo: "py_pow_f64 (effective_radius_max p) (f64 (1 - radius_alpha p)) = Inr lo"
    and hi: "py_pow_f64 (effective_radius_min p) (f64 (1 - radius_alpha p)) = Inr hi"
    and u: "uniform np g lo hi (effective_count p) = Inr (us, g')"
    and nn: "list_all (\<lambda>u. 0 \<le> u) us"
    and e: "py_div_f64 (- 1) (f64 (radius_alpha p - 1)) = Inr e"
  have "traverse (radius_of_f64 e) us = Inr (map (\<lambda>u. astype_int (np_power_f64 u e)) us)"
    using nn by (intro traverse_map_Inr) (auto simp: radius_of_f64_def list_all_iff)
  then show "sample_radius_f64 np p g =
      (Inr (map (\<lambda>u. astype_int (np_power_f64 u e)) us), g')"
    by (simp add: sample_radius_f64_def lo hi u e)
next
  fix e :: real
  assume "e < 0"
  then show "astype_int (np_power_f64 0 e) = - (2 ^ 63)"
    by (simp add: np_power_f64_def astype_int_def)
qed

lemma f64_underflow: "f64 (1 / 2 ^ 1200) = 0"
proof -
  have "(1 :: real) / 2 ^ 1200 < 2 powr (- 1022)"
    by (simp add: powr_minus inverse_eq_divide)
  from f64_subnormal [OF _ this] show ?thesis
    by (simp add: powr_minus np_round_def Let_def)
qed

text \<open>
  \<open>radius_max = 2 ^ 600\<close> with \<open>radius_alpha = 3\<close>: the power \<open>2 ^ -1200\<close> underflows to
  \<open>0.0\<close> with no error, the draw between 0 and 1 gives its lower bound, whose power is
  \<open>inf\<close>, and the radius returned is \<open>-2 ^ 63\<close>.
\<close>

theorem underflow_gives_garbage_radius:
  "py_pow_f64 (2 ^ 600) (f64 (1 - 3)) = Inr 0 \<and>
   sample_radius_f64 strict_rng (small_params\<lparr>radius_max := 2 ^ 600\<rparr>) 2 =
     (Inr [- (2 ^ 63)], 3)"
proof -
  have m2: "f64 (- 2) = - 2" using f64_minus [of 2] by simp
  have pw: "(2 ^ 600 :: real) powr - 2 = 1 / 2 ^ 1200"
    by (simp add: powr_minus powr_numeral inverse_eq_divide power_mult [symmetric])
  have p: "py_pow_f64 (2 ^ 600) (- 2) = Inr 0"
    by (simp only: py_pow_f64_def pw f64_underflow) (simp add: f64_finite_def)
  have r: "radius_of_f64 (- (1 / 2)) 0 = Inr (- (2 ^ 63))"
    by (simp add: radius_of_f64_def np_power_f64_def astype_int_def)
  have v: "effective_radius_min (small_params\<lparr>radius_max := 2 ^ 600\<rparr>) = 1"
    "effective_radius_max (small_params\<lparr>radius_max := 2 ^ 600\<rparr>) = 2 ^ 600"
    "radius_alpha (small_params\<lparr>radius_max := 2 ^ 600\<rparr>) = 3"
    "effective_count (small_params\<lparr>radius_max := 2 ^ 600\<rparr>) = 1"
    by (simp_all add: small_params_def effective_radius_min_def effective_radius_max_def
        effective_count_def)
  have one: "py_pow_f64 1 (- 2) = Inr 1"
    by (simp add: py_pow_f64_def f64_finite_def)
  have dv: "py_div_f64 (- 1) 2 = Inr (- (1 / 2))"
    by (simp add: py_div_f64_def f64_finite_def)
  have "sample_radius_f64 strict_rng (small_params\<lparr>radius_max := 2 ^ 600\<rparr>) 2 =
     (Inr [- (2 ^ 63)], 3)"
    unfolding sample_radius_f64_def v
    by (simp add: m2 p one dv r strict_rng_def counting_rng_def del: power_numeral)
  with p m2 show ?thesis by simp
qed

theorem overflow_not_detected_witness:
  "py_pow_f64 (2 ^ 600) (f64 (1 - 3)) = Inr 0 \<and>
   py_pow_f64 1 (f64 (1 - 3)) = Inr 1 \<and>
   uniform strict_rng 2 0 1 1 = Inr ([0], 3) \<and>
   py_div_f64 (- 1) (f64 (3 - 1)) = Inr (- (1 / 2)) \<and>
   sample_radius_f64 strict_rng (small_params\<lparr>radius_max := 2 ^ 600\<rparr>) 2 =
     (Inr [astype_int (np_power_f64 0 (- (1 / 2)))], 3) \<and>
   astype_int (np_power_f64 0 (- (1 / 2))) = - (2 ^ 63) \<and>
   sample_radius_f64 strict_rng (small_params\<lparr>radius_max := 2 ^ 600, radius_alpha := - 1\<rparr>) 2 =
     (Inl OverflowError, 2)"
proof -
  let ?p = "small_params\<lparr>radius_max := 2 ^ 600\<rparr>"
  let ?q = "small_params\<lparr>radius_max := 2 ^ 600, radius_alpha := - 1\<rparr>"
  have m2: "f64 (- 2) = - 2" using f64_minus [of 2] by simp
  have pw: "(2 ^ 600 :: real) powr - 2 = 1 / 2 ^ 1200"
    by (simp add: powr_minus powr_numeral inverse_eq_divide power_mult [symmetric])
  have p: "py_pow_f64 (2 ^ 600) (- 2) = Inr 0"
    by (simp only: py_pow_f64_def pw f64_underflow) (simp add: f64_finite_def)
  have one: "py_pow_f64 1 (- 2) = Inr 1"
    by (simp add: py_pow_f64_def f64_finite_def)
  have dv: "py_div_f64 (- 1) 2 = Inr (- (1 / 2))"
    by (simp add: py_div_f64_def f64_finite_def)
  have u: "uniform strict_rng 2 0 1 1 = Inr ([0], 3)"
    by (simp add: strict_rng_def counting_rng_def)
  have v: "effective_radius_min ?p = 1" "effective_radius_max ?p = 2 ^ 600"
    "radius_alpha ?p = 3" "effective_count ?p = 1"
    by (simp_all add: small_params_def effective_radius_min_def effective_radius_max_def
        effective_count_def)
  note nd = overflow_not_detected [where np = strict_rng and p = ?p and g = 2,
      THEN conjunct2, rule_format, of 0 1 "[0]" 3 "- (1 / 2)"]
  have a: "sample_radius_f64 strict_rng ?p 2 =
      (Inr (map (\<lambda>u. astype_int (np_power_f64 u (- (1 / 2)))) [0]), 3) \<and>
      (- (1 / 2) < (0 :: real) \<longrightarrow> astype_int (np_power_f64 0 (- (1 / 2))) = - (2 ^ 63))"
    by (rule nd) (simp_all add: v m2 p one dv u del: power_numeral)
  have w: "effective_radius_max ?q = 2 ^ 600" "radius_alpha ?q = - 1"
    by (simp_all add: small_params_def effective_radius_max_def)
  have big: "f64 ((2 :: real) ^ 1200) = 2 ^ 1200"
  proof -
    have "f64 (2 powr of_int 1200) =
        of_int (np_round (2 powr of_int 1200 / 2 powr (of_int 1200 - 52))) *
          2 powr (of_int 1200 - 52)"
      by (rule f64_normal) (simp_all add: powr_add)
    moreover have "(2 :: real) powr of_int 1200 / 2 powr (of_int 1200 - 52) = 2 ^ 52"
      by (simp add: powr_diff powr_numeral)
    moreover have "(2 :: real) ^ 52 * 2 powr (of_int 1200 - 52) = 2 powr of_int 1200"
      unfolding pow2_powr by simp
    moreover have "np_round ((2 :: real) ^ 52) = 2 ^ 52"
      using np_round_of_int [of "2 ^ 52"] by simp
    moreover have "(2 :: real) powr of_int 1200 = 2 ^ 1200"
      by (simp add: powr_numeral)
    ultimately show ?thesis by simp
  qed
  have b: "sample_radius_f64 strict_rng ?q 2 = (Inl OverflowError, 2)"
    by (rule overflow_not_detected [where np = strict_rng and p = ?q and g = 2,
          THEN conjunct1, rule_format])
      (simp_all add: w f64_two big f64_finite_def del: power_numeral)
  from a b p one u dv m2 show ?thesis by simp
qed

end
